theory Spec2Isabelle
  imports Complex_Main
begin

section \<open>The numerical kernel of CiliaSim\<close>

text \<open>
  The module \<^verbatim>\<open>src/CiliaSim/jit_functions.py\<close> holds the geometry primitives, the
  force-matrix assembler, the boundary reflection and the hexagonal seed layout.
  Every function is compiled with \<^verbatim>\<open>@njit\<close> under the default error model.

  Conventions of the embedding:
  \<^item> a \<^verbatim>\<open>float64\<close> is a \<^typ>\<open>real\<close>: rounding, infinities and overflow are not
    represented. Where the source produces a NaN (a quotient by a zero distance, the
    square root of a negative number) the model has a branch of its own for it;
  \<^item> an integer is an \<^typ>\<open>int\<close>, an array index a \<^typ>\<open>nat\<close>; where the 64-bit
    arithmetic of the compiled code can leave its range, in the hexagonal layout, the
    wrap-around is written out;
  \<^item> an array of shape \<open>(num_cells, \<dots>)\<close> is its index function; only indices below
    \<open>num_cells\<close> are meaningful;
  \<^item> a division of two scalars raises \<^verbatim>\<open>ZeroDivisionError\<close> on a zero divisor (the
    default error model of the compiled code), a division of an array by a scalar or by
    an array does not raise;
  \<^item> a failing call is a value \<open>Inl e\<close>, a returning one \<open>Inr v\<close>.
\<close>

type_synonym vec = "real \<times> real"

datatype error = ZeroDivisionError | IndexError

subsection \<open>Polygon area\<close>

text \<open>
  \<^verbatim>\<open>polygon_area\<close> splits the vertex array into its columns, builds both columns
  shifted by one position with the first entry moved to the end, and returns half the
  absolute value of the summed cross terms. The write \<^verbatim>\<open>shifted_x[-1] = x[0]\<close> reads
  position 0, which an empty vertex array does not have.
\<close>

definition polygon_area :: "vec list \<Rightarrow> error + real" where
  "polygon_area vertices =
     (let x = map fst vertices;
          y = map snd vertices
      in if x = [] then Inl IndexError
         else
           let shifted_x = tl x @ [hd x];
               shifted_y = tl y @ [hd y]
           in Inr (0.5 * \<bar>sum_list (map2 (-) (map2 (*) x shifted_y) (map2 (*) y shifted_x))\<bar>))"

text \<open>
  The Shoelace sum as the specification writes it, with wrap-around indexing:
  \<open>\<Sum>\<^sub>i (x\<^sub>i * y\<^sub>i\<^sub>+\<^sub>1 - y\<^sub>i * x\<^sub>i\<^sub>+\<^sub>1)\<close>, the index \<open>i + 1\<close> taken modulo the number of vertices.
\<close>

definition shoelace_sum :: "vec list \<Rightarrow> real" where
  "shoelace_sum vs =
     (\<Sum>i<length vs. fst (vs ! i) * snd (vs ! ((i + 1) mod length vs))
                      - snd (vs ! i) * fst (vs ! ((i + 1) mod length vs)))"

definition unit_square :: "vec list" where
  "unit_square = [(0, 0), (1, 0), (1, 1), (0, 1)]"

subsection \<open>Vectors\<close>

text \<open>
  The element-wise array arithmetic on points, \<^verbatim>\<open>np.dot\<close> and \<^verbatim>\<open>np.linalg.norm\<close>
  on arrays of two components.
\<close>

definition vadd :: "vec \<Rightarrow> vec \<Rightarrow> vec" where
  "vadd u v = (fst u + fst v, snd u + snd v)"

definition vsub :: "vec \<Rightarrow> vec \<Rightarrow> vec" where
  "vsub u v = (fst u - fst v, snd u - snd v)"

definition smul :: "real \<Rightarrow> vec \<Rightarrow> vec" where
  "smul k v = (k * fst v, k * snd v)"

definition vdiv :: "vec \<Rightarrow> real \<Rightarrow> vec" where
  "vdiv v k = (fst v / k, snd v / k)"

definition dot :: "vec \<Rightarrow> vec \<Rightarrow> real" where
  "dot u v = fst u * fst v + snd u * snd v"

definition linalg_norm :: "vec \<Rightarrow> real" where
  "linalg_norm v = sqrt ((fst v)\<^sup>2 + (snd v)\<^sup>2)"

subsection \<open>Boundary reflection\<close>

text \<open>
  \<^verbatim>\<open>calculate_boundary_reflection(a, b, c)\<close>. The quotient that gives \<^verbatim>\<open>angle_cos\<close>
  is a division of scalars and raises on a zero divisor; \<^verbatim>\<open>edge_vector / edge_norm\<close>
  divides an array and yields NaN components on a zero norm. The second component of the
  result is \<open>None\<close> where the source returns no meaningful point: the uninitialised
  array \<^verbatim>\<open>np.empty_like(a)\<close>, or NaN components.
\<close>

definition calculate_boundary_reflection ::
  "vec \<Rightarrow> vec \<Rightarrow> vec \<Rightarrow> error + (bool \<times> vec option)" where
  "calculate_boundary_reflection a b c =
     (let ac = vsub c a;
          bc = vsub c b;
          ac_norm = linalg_norm ac;
          bc_norm = linalg_norm bc;
          ac_dot_bc = dot ac bc
      in if ac_norm * bc_norm = 0 then Inl ZeroDivisionError
         else
           let angle_cos = ac_dot_bc / (ac_norm * bc_norm)
           in if angle_cos < 0 then
                let edge_vector = vsub b a;
                    edge_norm = linalg_norm edge_vector
                in if edge_norm = 0 then Inr (True, None)
                   else
                     let edge_unit_vector = vdiv edge_vector edge_norm;
                         projection_length = dot ac edge_unit_vector;
                         projection_vector = smul projection_length edge_unit_vector;
                         reflected_point = vsub (smul 2 (vadd a projection_vector)) c
                     in Inr (True, Some reflected_point)
              else Inr (False, None))"

text \<open>
  The notions the specification uses for the reflection: the cosine of the angle at \<open>c\<close>
  between \<open>c - a\<close> and \<open>c - b\<close>, the projected point \<open>p\<close> on the edge, and, for the mirror
  image, the signed area spanned by the edge and a point (zero exactly on the line through
  \<open>a\<close> and \<open>b\<close>), the distance of a point to that line and the midpoint of two points.
\<close>

definition angle_cosine :: "vec \<Rightarrow> vec \<Rightarrow> vec \<Rightarrow> real" where
  "angle_cosine a b c =
     dot (vsub c a) (vsub c b) / (linalg_norm (vsub c a) * linalg_norm (vsub c b))"

definition projected_point :: "vec \<Rightarrow> vec \<Rightarrow> vec \<Rightarrow> vec" where
  "projected_point a b c =
     vadd a (smul (dot (vsub c a) (vdiv (vsub b a) (linalg_norm (vsub b a))))
                  (vdiv (vsub b a) (linalg_norm (vsub b a))))"

definition cross :: "vec \<Rightarrow> vec \<Rightarrow> real" where
  "cross u v = fst u * snd v - snd u * fst v"

definition on_line :: "vec \<Rightarrow> vec \<Rightarrow> vec \<Rightarrow> bool" where
  "on_line a b q = (cross (vsub b a) (vsub q a) = 0)"

definition dist_to_line :: "vec \<Rightarrow> vec \<Rightarrow> vec \<Rightarrow> real" where
  "dist_to_line a b q = \<bar>cross (vsub b a) (vsub q a)\<bar> / linalg_norm (vsub b a)"

definition midpoint :: "vec \<Rightarrow> vec \<Rightarrow> vec" where
  "midpoint u v = smul (1 / 2) (vadd u v)"

subsection \<open>Force matrix\<close>

text \<open>
  The four work matrices of \<^verbatim>\<open>calculate_force_matrix\<close>. An entry of the unit-vector
  matrix is \<open>None\<close> when its components are NaN, which is what the quotient of a zero
  difference by a zero distance gives.
\<close>

type_synonym matrix = "nat \<Rightarrow> nat \<Rightarrow> real"

record matrices =
  spring_matrix :: matrix
  pressure_matrix :: matrix
  distance_matrix :: matrix
  unit_vector_matrix :: "nat \<Rightarrow> nat \<Rightarrow> vec option"

definition zeros :: matrices where
  "zeros = \<lparr>spring_matrix = (\<lambda>r c. 0), pressure_matrix = (\<lambda>r c. 0),
            distance_matrix = (\<lambda>r c. 0), unit_vector_matrix = (\<lambda>r c. Some (0, 0))\<rparr>"

text \<open>\<^verbatim>\<open>np.nonzero(adjacency_matrix[i])[0]\<close>: the columns of a row that hold a true entry, in increasing order.\<close>

definition nonzero :: "nat \<Rightarrow> (nat \<Rightarrow> bool) \<Rightarrow> nat list" where
  "nonzero num_cells row = filter row [0..<num_cells]"

text \<open>
  The assignments \<^verbatim>\<open>M[i, neighbours] = values\<close> and \<^verbatim>\<open>M[neighbours, i] = value\<close>. The
  values of the first are given by the neighbour they belong to.
\<close>

definition set_row :: "nat \<Rightarrow> nat list \<Rightarrow> (nat \<Rightarrow> 'a) \<Rightarrow> (nat \<Rightarrow> nat \<Rightarrow> 'a) \<Rightarrow> nat \<Rightarrow> nat \<Rightarrow> 'a" where
  "set_row i neighbours values M = (\<lambda>r c. if r = i \<and> c \<in> set neighbours then values c else M r c)"

definition set_column :: "nat list \<Rightarrow> nat \<Rightarrow> 'a \<Rightarrow> (nat \<Rightarrow> nat \<Rightarrow> 'a) \<Rightarrow> nat \<Rightarrow> nat \<Rightarrow> 'a" where
  "set_column neighbours i v M = (\<lambda>r c. if r \<in> set neighbours \<and> c = i then v else M r c)"

text \<open>The body of the loop over the cells, for the cell \<open>i\<close>.\<close>

definition loop_body ::
  "nat \<Rightarrow> real \<Rightarrow> (nat \<Rightarrow> vec) \<Rightarrow> (nat \<Rightarrow> int) \<Rightarrow> (nat \<Rightarrow> real) \<Rightarrow> (nat \<Rightarrow> vec list)
   \<Rightarrow> (nat \<Rightarrow> nat \<Rightarrow> bool) \<Rightarrow> nat \<Rightarrow> matrices \<Rightarrow> error + matrices" where
  "loop_body num_cells target_spring_length cell_points cell_types target_areas
     voronoi_vertices adjacency_matrix i m =
     (let neighbours = nonzero num_cells (adjacency_matrix i)
      in if length neighbours = 0 then Inr m
         else
           let differences = (\<lambda>j. vsub (cell_points j) (cell_points i));
               distances = (\<lambda>j. sqrt ((fst (differences j))\<^sup>2 + (snd (differences j))\<^sup>2));
               unit_vectors = (\<lambda>j. if distances j = 0 then None
                                   else Some (vdiv (differences j) (distances j)));
               m1 = m\<lparr>distance_matrix := set_row i neighbours distances (distance_matrix m),
                       unit_vector_matrix :=
                         set_row i neighbours unit_vectors (unit_vector_matrix m),
                       spring_matrix :=
                         set_row i neighbours (\<lambda>j. target_spring_length - distances j)
                           (spring_matrix m)\<rparr>
           in if cell_types i \<noteq> 1 then
                (case polygon_area (voronoi_vertices i) of
                   Inl e \<Rightarrow> Inl e
                 | Inr area \<Rightarrow>
                     if length neighbours = 0 then Inl ZeroDivisionError
                     else
                       let split_area_difference =
                             (target_areas i - area) / real (length neighbours)
                       in Inr (m1\<lparr>pressure_matrix :=
                                 set_column neighbours i split_area_difference
                                   (set_row i neighbours (\<lambda>j. split_area_difference)
                                      (pressure_matrix m1))\<rparr>))
              else Inr m1)"

text \<open>The loop \<^verbatim>\<open>for i in range(num_cells)\<close>; a raising body ends it.\<close>

fun for_rows :: "(nat \<Rightarrow> matrices \<Rightarrow> error + matrices) \<Rightarrow> nat list \<Rightarrow> matrices \<Rightarrow> error + matrices" where
  "for_rows body [] m = Inr m"
| "for_rows body (i # rest) m =
     (case body i m of Inl e \<Rightarrow> Inl e | Inr m' \<Rightarrow> for_rows body rest m')"

text \<open>The state of the four matrices when the loop has ended.\<close>

definition assembled ::
  "nat \<Rightarrow> real \<Rightarrow> (nat \<Rightarrow> vec) \<Rightarrow> (nat \<Rightarrow> int) \<Rightarrow> (nat \<Rightarrow> real) \<Rightarrow> (nat \<Rightarrow> vec list)
   \<Rightarrow> (nat \<Rightarrow> nat \<Rightarrow> bool) \<Rightarrow> error + matrices" where
  "assembled num_cells target_spring_length cell_points cell_types target_areas
     voronoi_vertices adjacency_matrix =
     for_rows (loop_body num_cells target_spring_length cell_points cell_types target_areas
                 voronoi_vertices adjacency_matrix) [0..<num_cells] zeros"

text \<open>\<^verbatim>\<open>spring_matrix[cell_types == 1] *= 0.1\<close>: the rows selected by the mask, whole.\<close>

definition damp :: "(nat \<Rightarrow> int) \<Rightarrow> matrix \<Rightarrow> matrix" where
  "damp cell_types S = (\<lambda>r c. if cell_types r = 1 then S r c * 0.1 else S r c)"

text \<open>\<^verbatim>\<open>np.clip(S, lo, None)\<close>: a lower bound only.\<close>

definition clip :: "real \<Rightarrow> matrix \<Rightarrow> matrix" where
  "clip lo S = (\<lambda>r c. if S r c < lo then lo else S r c)"

definition calculate_force_matrix ::
  "nat \<Rightarrow> real \<Rightarrow> real \<Rightarrow> (nat \<Rightarrow> vec) \<Rightarrow> (nat \<Rightarrow> int) \<Rightarrow> (nat \<Rightarrow> real) \<Rightarrow> (nat \<Rightarrow> vec list)
   \<Rightarrow> (nat \<Rightarrow> nat \<Rightarrow> bool) \<Rightarrow> error + ((nat \<Rightarrow> nat \<Rightarrow> vec option) \<times> matrix)" where
  "calculate_force_matrix num_cells target_spring_length critical_length_delta cell_points
     cell_types target_areas voronoi_vertices adjacency_matrix =
     (case assembled num_cells target_spring_length cell_points cell_types target_areas
             voronoi_vertices adjacency_matrix of
        Inl e \<Rightarrow> Inl e
      | Inr m \<Rightarrow>
          let spring = clip (- critical_length_delta) (damp cell_types (spring_matrix m));
              force_matrix =
                (\<lambda>r c. case unit_vector_matrix m r c of
                          None \<Rightarrow> None
                        | Some u \<Rightarrow> Some (smul (spring r c + pressure_matrix m r c) u))
          in Inr (force_matrix, distance_matrix m))"

text \<open>A matrix that equals its transpose.\<close>

definition symmetric :: "matrix \<Rightarrow> bool" where
  "symmetric P = (\<forall>r c. P r c = P c r)"

text \<open>
  A system of two cells at distance 5 that are neighbours of each other, each with the
  unit square as its Voronoi polygon; an index 2, where it is used, is a third cell with
  no neighbour and no polygon.
\<close>

definition pair_points :: "nat \<Rightarrow> vec" where
  "pair_points i = (if i = 0 then (0, 0) else (3, 4))"

definition pair_adjacency :: "nat \<Rightarrow> nat \<Rightarrow> bool" where
  "pair_adjacency i j = (i < 2 \<and> j < 2 \<and> i \<noteq> j)"

definition pair_areas :: "nat \<Rightarrow> real" where
  "pair_areas i = (if i = 0 then 2 else 4)"

definition pair_vertices :: "nat \<Rightarrow> vec list" where
  "pair_vertices i = (if i < 2 then unit_square else [])"

definition boundary_first :: "nat \<Rightarrow> int" where
  "boundary_first k = (if k = 0 then 1 else 0)"

subsection \<open>Hexagonal grid layout\<close>

text \<open>
  The compiled code computes with 64-bit signed integers, whose sums and products wrap
  around. \<open>int64 v\<close> is the value of that type that the integer \<open>v\<close> wraps to; an
  argument of the function is a value of that type.
\<close>

definition int64 :: "int \<Rightarrow> int" where
  "int64 v = (v + 2 ^ 63) mod 2 ^ 64 - 2 ^ 63"

definition is_int64 :: "int \<Rightarrow> bool" where
  "is_int64 v = (- (2 ^ 63) \<le> v \<and> v < 2 ^ 63)"

text \<open>
  \<^verbatim>\<open>hexagonal_grid_layout(num_cells, x, y)\<close>. The ring count is
  \<^verbatim>\<open>int(np.floor(1 / 2 + np.sqrt(12 * num_cells - 3) / 6))\<close>. When the wrapped value
  of \<^verbatim>\<open>12 * num_cells - 3\<close> is negative, the root and its floor are NaN, and the
  conversion of NaN to an integer is not fixed by the compiled code: it raises nothing
  and yields a value of the platform (\<open>- 2 ^ 63\<close> on x86-64). That value is the parameter
  \<open>nan_to_int\<close> of the model.
\<close>

definition num_rings :: "int \<Rightarrow> int \<Rightarrow> int" where
  "num_rings nan_to_int num_cells =
     (let radicand = int64 (int64 (12 * num_cells) - 3)
      in if radicand < 0 then nan_to_int
         else \<lfloor>1 / 2 + sqrt (real_of_int radicand) / 6\<rfloor>)"

text \<open>
  The body of the inner loop: the point \<open>j\<close> of the ring \<open>i\<close>. Both quotients by
  \<^verbatim>\<open>3 * i\<close> are divisions of scalars.
\<close>

definition ring_point :: "real \<Rightarrow> real \<Rightarrow> int \<Rightarrow> int \<Rightarrow> error + vec" where
  "ring_point cx cy i j =
     (if int64 (3 * i) = 0 then Inl ZeroDivisionError
      else
        let angle = real_of_int j * pi / real_of_int (int64 (3 * i));
            angle = (if i mod 2 = 0 then angle + pi / real_of_int (int64 (3 * i)) else angle)
        in Inr (cx + real_of_int i * cos angle, cy + real_of_int i * sin angle))"

text \<open>The loop \<^verbatim>\<open>for j in range(6 * i)\<close>, appending to \<^verbatim>\<open>points\<close>.\<close>

fun for_j :: "real \<Rightarrow> real \<Rightarrow> int \<Rightarrow> int list \<Rightarrow> vec list \<Rightarrow> error + vec list" where
  "for_j cx cy i [] points = Inr points"
| "for_j cx cy i (j # rest) points =
     (case ring_point cx cy i j of
        Inl e \<Rightarrow> Inl e
      | Inr p \<Rightarrow> for_j cx cy i rest (points @ [p]))"

text \<open>The loop \<^verbatim>\<open>for i in range(1, num_rings + 1)\<close>, given the list of its values of \<open>i\<close>.\<close>

fun for_i :: "real \<Rightarrow> real \<Rightarrow> int list \<Rightarrow> vec list \<Rightarrow> error + vec list" where
  "for_i cx cy [] points = Inr points"
| "for_i cx cy (i # rest) points =
     (case for_j cx cy i [0..int64 (6 * i) - 1] points of
        Inl e \<Rightarrow> Inl e
      | Inr points' \<Rightarrow> for_i cx cy rest points')"

definition hexagonal_grid_layout :: "int \<Rightarrow> int \<Rightarrow> int \<Rightarrow> int \<Rightarrow> error + vec list" where
  "hexagonal_grid_layout nan_to_int num_cells x y =
     (let num_rings = num_rings nan_to_int num_cells;
          cx = real_of_int x / 2;
          cy = real_of_int y / 2;
          points = [(cx, cy)]
      in for_i cx cy [1..int64 (num_rings + 1) - 1] points)"

text \<open>
  The layout as the specification describes it: ring \<open>i\<close> holds \<open>6 * i\<close> points at
  radius \<open>i\<close> around the centre, at the angles \<open>ring_angle i j\<close> for \<open>j = 0, \<dots>, 6 * i - 1\<close>.
\<close>

definition ring_angle :: "int \<Rightarrow> int \<Rightarrow> real" where
  "ring_angle i j = real_of_int (j + (if even i then 1 else 0)) * pi / real_of_int (3 * i)"

definition hex_ring :: "real \<Rightarrow> real \<Rightarrow> int \<Rightarrow> vec list" where
  "hex_ring cx cy i =
     map (\<lambda>j. (cx + real_of_int i * cos (ring_angle i j),
               cy + real_of_int i * sin (ring_angle i j))) [0..6 * i - 1]"

definition num_points :: "error + vec list \<Rightarrow> error + nat" where
  "num_points r = (case r of Inl e \<Rightarrow> Inl e | Inr points \<Rightarrow> Inr (length points))"

text \<open>The largest \<open>num_cells\<close> for which \<^verbatim>\<open>12 * num_cells - 3\<close> does not wrap.\<close>

definition max_cells :: int where
  "max_cells = 768614336404564650"

section \<open>Properties of the polygon area\<close>

lemma shifted_eq_rotate1: "xs \<noteq> [] \<Longrightarrow> tl xs @ [hd xs] = rotate1 xs"
  by (cases xs) simp_all

lemma sum_list_map2_nth:
  "length xs = length ys \<Longrightarrow>
   sum_list (map2 f xs ys) = (\<Sum>i<length xs. f (xs ! i) (ys ! i))"
  by (simp add: sum_list_sum_nth atLeast0LessThan)

lemma polygon_area_shoelace:
  assumes "vs \<noteq> []"
  shows "polygon_area vs = Inr (0.5 * \<bar>shoelace_sum vs\<bar>)"
proof -
  have r: "tl (map f vs) @ [hd (map f vs)] = rotate1 (map f vs)" for f :: "vec \<Rightarrow> real"
    using assms by (simp add: shifted_eq_rotate1)
  have "sum_list (map2 (-) (map2 (*) (map fst vs) (rotate1 (map snd vs)))
                           (map2 (*) (map snd vs) (rotate1 (map fst vs)))) = shoelace_sum vs"
  proof -
    have lt: "Suc i mod length vs < length vs" for i using assms by simp
    have "sum_list (map2 (-) (map2 (*) (map fst vs) (rotate1 (map snd vs)))
                             (map2 (*) (map snd vs) (rotate1 (map fst vs))))
       = (\<Sum>i<length vs. (map2 (*) (map fst vs) (rotate1 (map snd vs))) ! i
                           - (map2 (*) (map snd vs) (rotate1 (map fst vs))) ! i)"
      by (subst sum_list_map2_nth) simp_all
    also have "\<dots> = shoelace_sum vs"
      unfolding shoelace_sum_def
      by (rule sum.cong) (simp_all add: nth_rotate1 lt)
    finally show ?thesis .
  qed
  then show ?thesis
    using assms by (simp add: polygon_area_def Let_def r del: rotate1_map)
qed

text \<open>Walking the loop in the other direction negates every cross term.\<close>

lemma shoelace_sum_rev: "shoelace_sum (rev vs) = - shoelace_sum vs"
proof (cases "vs = []")
  case True
  then show ?thesis by (simp add: shoelace_sum_def)
next
  case False
  define n where "n = length vs"
  have n: "0 < n" using False by (simp add: n_def)
  define g where "g i = fst (vs ! i) * snd (vs ! ((i + 1) mod n))
                        - snd (vs ! i) * fst (vs ! ((i + 1) mod n))" for i
  define h where "h i = (n - 1 - ((i + 1) mod n))" for i :: nat
  have hlt: "h i < n" for i using n by (simp add: h_def)
  have hh: "h (h i) = i" if "i < n" for i
  proof (cases "i + 1 = n")
    case True
    then show ?thesis using n that by (simp add: h_def)
  next
    case False
    then have "i + 1 < n" using that by simp
    then show ?thesis using n that by (auto simp add: h_def mod_Suc)
  qed
  have idx1: "n - Suc (Suc i mod n) = h i" for i by (simp add: h_def)
  have idx2: "(h i + 1) mod n = n - 1 - i" if "i < n" for i
  proof (cases "i + 1 = n")
    case True
    then show ?thesis using n that by (simp add: h_def)
  next
    case False
    then have "i + 1 < n" using that by simp
    then show ?thesis using n that by (auto simp add: h_def mod_Suc)
  qed
  have "shoelace_sum (rev vs) = (\<Sum>i<n. - g (h i))"
    unfolding shoelace_sum_def
  proof (rule sum.cong)
    fix i assume "i \<in> {..<n}"
    then have i: "i < n" by simp
    have m: "Suc i mod n < n" using n by simp
    show "fst (rev vs ! i) * snd (rev vs ! ((i + 1) mod length (rev vs)))
          - snd (rev vs ! i) * fst (rev vs ! ((i + 1) mod length (rev vs))) = - g (h i)"
      using i m idx2[OF i] n
      by (simp add: rev_nth n_def[symmetric] g_def idx1)
  qed (simp add: n_def)
  also have "\<dots> = - (\<Sum>i<n. g (h i))" by (simp add: sum_negf)
  also have "(\<Sum>i<n. g (h i)) = (\<Sum>i<n. g i)"
    by (rule sum.reindex_bij_witness[where i = h and j = h]) (simp_all add: hh hlt)
  also have "(\<Sum>i<n. g i) = shoelace_sum vs"
    by (simp add: shoelace_sum_def g_def n_def)
  finally show ?thesis .
qed

lemma polygon_area_rev: "polygon_area (rev vs) = polygon_area vs"
proof (cases "vs = []")
  case True
  then show ?thesis by simp
next
  case False
  then show ?thesis by (simp add: polygon_area_shoelace shoelace_sum_rev)
qed

lemma polygon_area_unit_square: "polygon_area unit_square = Inr 1"
  by (simp add: polygon_area_def unit_square_def)

lemma polygon_area_unit_square_rev: "polygon_area (rev unit_square) = Inr 1"
  by (simp add: polygon_area_def unit_square_def)

text \<open>
  Claim C9. For a vertex loop that is not empty, \<^verbatim>\<open>polygon_area\<close> returns the
  non-negative number \<open>0.5 * \<bar>\<Sum>\<^sub>i (x\<^sub>i * y\<^sub>i\<^sub>+\<^sub>1 - y\<^sub>i * x\<^sub>i\<^sub>+\<^sub>1)\<bar>\<close> with wrap-around indexing; the
  loop walked in the opposite winding direction has the same area; and the unit square
  \<open>(0,0), (1,0), (1,1), (0,1)\<close> has area 1 in either direction.
\<close>

theorem polygon_area_is_shoelace:
  "vertices \<noteq> [] \<Longrightarrow>
     polygon_area vertices = Inr (0.5 * \<bar>shoelace_sum vertices\<bar>)
     \<and> 0 \<le> 0.5 * \<bar>shoelace_sum vertices\<bar>
     \<and> polygon_area (rev vertices) = polygon_area vertices
     \<and> polygon_area unit_square = Inr 1
     \<and> polygon_area (rev unit_square) = Inr 1"
  using polygon_area_shoelace [of vertices] polygon_area_rev [of vertices]
    polygon_area_unit_square polygon_area_unit_square_rev
  by simp

theorem polygon_area_is_shoelace_witness:
  "[(0, 0), (2, 0), (0, 3)] \<noteq> ([] :: vec list)
   \<and> polygon_area [(0, 0), (2, 0), (0, 3)] = Inr 3
   \<and> 0.5 * \<bar>shoelace_sum [(0, 0), (2, 0), (0, 3)]\<bar> = 3
   \<and> polygon_area (rev [(0, 0), (2, 0), (0, 3)]) = Inr 3"
  using polygon_area_is_shoelace [of "[(0, 0), (2, 0), (0, 3)]"]
  by (simp add: polygon_area_def)

section \<open>Properties of the force matrix\<close>

lemma for_rows_invariant:
  assumes "for_rows body rows m = Inr m'"
    and "P m"
    and "\<And>i m m'. i \<in> set rows \<Longrightarrow> P m \<Longrightarrow> body i m = Inr m' \<Longrightarrow> P m'"
  shows "P m'"
  using assms
proof (induction rows arbitrary: m)
  case Nil
  then show ?case by simp
next
  case (Cons i rest)
  from Cons.prems(1) obtain m1 where b: "body i m = Inr m1" and r: "for_rows body rest m1 = Inr m'"
    by (auto split: sum.splits)
  have "P m1" using Cons.prems(3)[of i m m1] Cons.prems(2) b by simp
  then show ?case
  proof (rule Cons.IH[OF r])
    fix k ma mb
    assume "k \<in> set rest" "P ma" "body k ma = Inr mb"
    then show "P mb" using Cons.prems(3)[of k ma mb] by simp
  qed
qed

lemma nonzero_mem: "c \<in> set (nonzero n row) \<longleftrightarrow> c < n \<and> row c"
  by (auto simp: nonzero_def)

lemma loop_body_spring:
  assumes "loop_body n L pts types ta vv adj i m = Inr m'"
  shows "spring_matrix m' =
           set_row i (nonzero n (adj i)) (\<lambda>j. L - linalg_norm (vsub (pts j) (pts i))) (spring_matrix m)"
  using assms
  by (auto simp: loop_body_def Let_def set_row_def linalg_norm_def fun_eq_iff
      split: if_splits sum.splits)

lemma loop_body_distance:
  assumes "loop_body n L pts types ta vv adj i m = Inr m'"
  shows "distance_matrix m' =
           set_row i (nonzero n (adj i)) (\<lambda>j. linalg_norm (vsub (pts j) (pts i))) (distance_matrix m)"
  using assms
  by (auto simp: loop_body_def Let_def set_row_def linalg_norm_def fun_eq_iff
      split: if_splits sum.splits)

lemma loop_body_unit:
  assumes "loop_body n L pts types ta vv adj i m = Inr m'"
  shows "unit_vector_matrix m' =
           set_row i (nonzero n (adj i))
             (\<lambda>j. if linalg_norm (vsub (pts j) (pts i)) = 0 then None
                  else Some (vdiv (vsub (pts j) (pts i)) (linalg_norm (vsub (pts j) (pts i)))))
             (unit_vector_matrix m)"
  using assms
  by (auto simp: loop_body_def Let_def set_row_def linalg_norm_def fun_eq_iff
      split: if_splits sum.splits)

lemma loop_body_pressure:
  assumes "loop_body n L pts types ta vv adj i m = Inr m'"
  shows "pressure_matrix m' = pressure_matrix m
         \<or> (\<exists>v. pressure_matrix m' =
                  set_column (nonzero n (adj i)) i v
                    (set_row i (nonzero n (adj i)) (\<lambda>j. v) (pressure_matrix m)))"
  using assms
  by (auto simp: loop_body_def Let_def split: if_splits sum.splits)

lemma loop_body_no_neighbours:
  "nonzero n (adj i) = [] \<Longrightarrow> loop_body n L pts types ta vv adj i m = Inr m"
  by (simp add: loop_body_def)

lemma symmetric_write:
  "symmetric P \<Longrightarrow> symmetric (set_column nb i v (set_row i nb (\<lambda>j. v) P))"
  by (auto simp: symmetric_def set_column_def set_row_def)

lemma loop_body_symmetric:
  "loop_body n L pts types ta vv adj i m = Inr m' \<Longrightarrow> symmetric (pressure_matrix m)
   \<Longrightarrow> symmetric (pressure_matrix m')"
  using loop_body_pressure[of n L pts types ta vv adj i m m'] symmetric_write by auto

lemma assembled_symmetric:
  assumes "assembled n L pts types ta vv adj = Inr m"
  shows "symmetric (pressure_matrix m)"
proof (rule for_rows_invariant[where P = "\<lambda>m. symmetric (pressure_matrix m)",
      OF assms[unfolded assembled_def]])
  show "symmetric (pressure_matrix zeros)" by (simp add: symmetric_def zeros_def)
qed (rule loop_body_symmetric)

lemma for_rows_spring:
  "for_rows (loop_body n L pts types ta vv adj) rows m = Inr m' \<Longrightarrow>
   spring_matrix m' r c =
     (if r \<in> set rows \<and> c < n \<and> adj r c then L - linalg_norm (vsub (pts c) (pts r))
      else spring_matrix m r c)"
proof (induction rows arbitrary: m)
  case Nil
  then show ?case by simp
next
  case (Cons i rest)
  from Cons.prems obtain m1 where b: "loop_body n L pts types ta vv adj i m = Inr m1"
    and r: "for_rows (loop_body n L pts types ta vv adj) rest m1 = Inr m'"
    by (auto split: sum.splits)
  show ?case
    using Cons.IH[OF r] loop_body_spring[OF b]
    by (auto simp: set_row_def nonzero_mem)
qed

lemma for_rows_distance:
  "for_rows (loop_body n L pts types ta vv adj) rows m = Inr m' \<Longrightarrow>
   distance_matrix m' r c =
     (if r \<in> set rows \<and> c < n \<and> adj r c then linalg_norm (vsub (pts c) (pts r))
      else distance_matrix m r c)"
proof (induction rows arbitrary: m)
  case Nil
  then show ?case by simp
next
  case (Cons i rest)
  from Cons.prems obtain m1 where b: "loop_body n L pts types ta vv adj i m = Inr m1"
    and r: "for_rows (loop_body n L pts types ta vv adj) rest m1 = Inr m'"
    by (auto split: sum.splits)
  show ?case
    using Cons.IH[OF r] loop_body_distance[OF b]
    by (auto simp: set_row_def nonzero_mem)
qed

lemma for_rows_unit:
  "for_rows (loop_body n L pts types ta vv adj) rows m = Inr m' \<Longrightarrow>
   unit_vector_matrix m' r c =
     (if r \<in> set rows \<and> c < n \<and> adj r c
      then (if linalg_norm (vsub (pts c) (pts r)) = 0 then None
            else Some (vdiv (vsub (pts c) (pts r)) (linalg_norm (vsub (pts c) (pts r)))))
      else unit_vector_matrix m r c)"
proof (induction rows arbitrary: m)
  case Nil
  then show ?case by simp
next
  case (Cons i rest)
  from Cons.prems obtain m1 where b: "loop_body n L pts types ta vv adj i m = Inr m1"
    and r: "for_rows (loop_body n L pts types ta vv adj) rest m1 = Inr m'"
    by (auto split: sum.splits)
  show ?case
    using Cons.IH[OF r] loop_body_unit[OF b]
    by (auto simp: set_row_def nonzero_mem)
qed

lemma assembled_spring:
  "assembled n L pts types ta vv adj = Inr m \<Longrightarrow>
   spring_matrix m r c =
     (if r < n \<and> c < n \<and> adj r c then L - linalg_norm (vsub (pts c) (pts r)) else 0)"
  unfolding assembled_def by (drule for_rows_spring[where r = r and c = c]) (simp add: zeros_def)

lemma assembled_distance:
  "assembled n L pts types ta vv adj = Inr m \<Longrightarrow>
   distance_matrix m r c =
     (if r < n \<and> c < n \<and> adj r c then linalg_norm (vsub (pts c) (pts r)) else 0)"
  unfolding assembled_def by (drule for_rows_distance[where r = r and c = c]) (simp add: zeros_def)

lemma assembled_unit:
  "assembled n L pts types ta vv adj = Inr m \<Longrightarrow>
   unit_vector_matrix m r c =
     (if r < n \<and> c < n \<and> adj r c
      then (if linalg_norm (vsub (pts c) (pts r)) = 0 then None
            else Some (vdiv (vsub (pts c) (pts r)) (linalg_norm (vsub (pts c) (pts r)))))
      else Some (0, 0))"
  unfolding assembled_def by (drule for_rows_unit[where r = r and c = c]) (simp add: zeros_def)

lemma loop_body_returns:
  "(cell_types i \<noteq> 1 \<Longrightarrow> nonzero n (adj i) \<noteq> [] \<Longrightarrow> vv i \<noteq> []) \<Longrightarrow>
   \<exists>m'. loop_body n L pts cell_types ta vv adj i m = Inr m'"
  by (auto simp: loop_body_def Let_def polygon_area_def)

lemma for_rows_returns:
  "(\<And>i m. i \<in> set rows \<Longrightarrow> \<exists>m'. body i m = Inr m') \<Longrightarrow> \<exists>m'. for_rows body rows m = Inr m'"
proof (induction rows arbitrary: m)
  case Nil
  then show ?case by simp
next
  case (Cons i rest)
  from Cons.prems[of i m] obtain m1 where b: "body i m = Inr m1" by auto
  have "\<exists>m'. for_rows body rest m1 = Inr m'"
    by (rule Cons.IH) (simp add: Cons.prems)
  then show ?case using b by simp
qed

lemma assembled_returns:
  assumes "\<And>i. i < n \<Longrightarrow> cell_types i \<noteq> 1 \<Longrightarrow> nonzero n (adj i) \<noteq> [] \<Longrightarrow> vv i \<noteq> []"
  shows "\<exists>m. assembled n L pts cell_types ta vv adj = Inr m"
  unfolding assembled_def
  by (rule for_rows_returns, rule loop_body_returns) (simp add: assms)


lemma upt_0_2: "[0..<2] = [0, Suc 0]"
  by (simp add: numeral_2_eq_2)

lemma upt_0_3: "[0..<3] = [0, Suc 0, 2]"
  by (simp add: numeral_3_eq_3)

lemma nonzero_pair_0: "nonzero 2 (pair_adjacency 0) = [Suc 0]"
  by (simp add: nonzero_def upt_0_2 pair_adjacency_def)

lemma nonzero_pair_1: "nonzero 2 (pair_adjacency (Suc 0)) = [0]"
  by (simp add: nonzero_def upt_0_2 pair_adjacency_def)

lemma nonzero_triple_0: "nonzero 3 (pair_adjacency 0) = [Suc 0]"
  by (simp add: nonzero_def upt_0_3 pair_adjacency_def)

lemma nonzero_triple_1: "nonzero 3 (pair_adjacency (Suc 0)) = [0]"
  by (simp add: nonzero_def upt_0_3 pair_adjacency_def)

lemma nonzero_triple_2: "nonzero 3 (pair_adjacency 2) = []"
  by (simp add: nonzero_def upt_0_3 pair_adjacency_def)

lemma pair_pressure:
  "\<exists>m. assembled 2 3 pair_points (\<lambda>k. 0) pair_areas pair_vertices pair_adjacency = Inr m
       \<and> pressure_matrix m 0 1 = 3 \<and> pressure_matrix m 1 0 = 3"
  by (simp add: assembled_def upt_0_2 loop_body_def nonzero_pair_0 nonzero_pair_1
      polygon_area_unit_square Let_def set_row_def set_column_def pair_areas_def pair_vertices_def)

lemma pair_distance: "linalg_norm (vsub (pair_points (Suc 0)) (pair_points 0)) = 5"
  by (simp add: linalg_norm_def vsub_def pair_points_def)

lemma calculate_force_matrix_Inr:
  assumes "calculate_force_matrix n L cld pts types ta vv adj = Inr (F, D)"
  shows "\<exists>m. assembled n L pts types ta vv adj = Inr m \<and> D = distance_matrix m
           \<and> F = (\<lambda>r c. case unit_vector_matrix m r c of
                           None \<Rightarrow> None
                         | Some u \<Rightarrow> Some (smul (clip (- cld) (damp types (spring_matrix m)) r c
                                                 + pressure_matrix m r c) u))"
  using assms by (auto simp: calculate_force_matrix_def Let_def split: sum.splits)

lemma calculate_force_matrix_returns:
  assumes "\<And>i. i < n \<Longrightarrow> types i \<noteq> 1 \<Longrightarrow> nonzero n (adj i) \<noteq> [] \<Longrightarrow> vv i \<noteq> []"
  shows "\<exists>F D. calculate_force_matrix n L cld pts types ta vv adj = Inr (F, D)"
proof -
  obtain m where "assembled n L pts types ta vv adj = Inr m"
    using assembled_returns[of n types adj vv L pts ta] assms by blast
  then show ?thesis by (simp add: calculate_force_matrix_def Let_def)
qed

text \<open>
  Claim C1. When the adjacency matrix is symmetric and the loop over the cells has
  ended, the pressure matrix that is added to the spring matrix to give the force is
  symmetric: its entry \<open>[i, j]\<close> equals its entry \<open>[j, i]\<close>. Every write of the loop
  stores one value at \<open>[i, neighbours]\<close> and at \<open>[neighbours, i]\<close>, so a later row
  that overwrites an earlier one overwrites both entries of a pair.
\<close>

theorem pressure_contribution_symmetric:
  assumes "\<forall>i<num_cells. \<forall>j<num_cells. adjacency_matrix i j = adjacency_matrix j i"
    and "assembled num_cells target_spring_length cell_points cell_types target_areas
           voronoi_vertices adjacency_matrix = Inr m"
  shows "pressure_matrix m i j = pressure_matrix m j i"
  using assembled_symmetric[OF assms(2)] by (simp add: symmetric_def)

theorem pressure_contribution_symmetric_witness:
  "\<exists>m. assembled 2 3 pair_points (\<lambda>k. 0) pair_areas pair_vertices pair_adjacency = Inr m
       \<and> pressure_matrix m 0 1 = pressure_matrix m 1 0 \<and> pressure_matrix m 1 0 = 3"
proof -
  obtain m where m: "assembled 2 3 pair_points (\<lambda>k. 0) pair_areas pair_vertices pair_adjacency = Inr m"
    and v: "pressure_matrix m 1 0 = 3"
    using pair_pressure by blast
  have s: "\<forall>i<2. \<forall>j<2. pair_adjacency i j = pair_adjacency j i"
    by (auto simp: pair_adjacency_def)
  have "pressure_matrix m 0 1 = pressure_matrix m 1 0"
    using pressure_contribution_symmetric[OF s m] .
  then show ?thesis using m v by blast
qed

text \<open>
  Claim C3. Where \<open>adjacency_matrix[i, j]\<close> is false, the returned force entry
  \<open>[i, j]\<close> is the zero vector and the returned distance entry is zero. A cell whose
  adjacency row is false throughout is skipped by the loop, whatever its type: the body
  returns the matrices unchanged and raises nothing. The call returns whenever every
  cell that is not of type 1 and has a neighbour has a Voronoi polygon with a vertex.
\<close>

theorem zero_where_no_edge:
  assumes "i < num_cells" and "j < num_cells" and "\<not> adjacency_matrix i j"
  shows "(calculate_force_matrix num_cells target_spring_length critical_length_delta
            cell_points cell_types target_areas voronoi_vertices adjacency_matrix = Inr (F, D)
          \<longrightarrow> F i j = Some (0, 0) \<and> D i j = 0)
       \<and> ((\<forall>k<num_cells. \<not> adjacency_matrix i k)
          \<longrightarrow> loop_body num_cells target_spring_length cell_points cell_types target_areas
                voronoi_vertices adjacency_matrix i m = Inr m)
       \<and> ((\<forall>k<num_cells. cell_types k \<noteq> 1 \<and> (\<exists>l<num_cells. adjacency_matrix k l)
               \<longrightarrow> voronoi_vertices k \<noteq> [])
          \<longrightarrow> (\<exists>F' D'. calculate_force_matrix num_cells target_spring_length
                          critical_length_delta cell_points cell_types target_areas
                          voronoi_vertices adjacency_matrix = Inr (F', D')))"
proof (intro conjI impI)
  assume "calculate_force_matrix num_cells target_spring_length critical_length_delta
            cell_points cell_types target_areas voronoi_vertices adjacency_matrix = Inr (F, D)"
  from calculate_force_matrix_Inr[OF this] obtain ma where
    a: "assembled num_cells target_spring_length cell_points cell_types target_areas
          voronoi_vertices adjacency_matrix = Inr ma"
    and D: "D = distance_matrix ma"
    and F: "F = (\<lambda>r c. case unit_vector_matrix ma r c of
                           None \<Rightarrow> None
                         | Some u \<Rightarrow> Some (smul (clip (- critical_length_delta)
                                (damp cell_types (spring_matrix ma)) r c + pressure_matrix ma r c) u))"
    by blast
  show "F i j = Some (0, 0)"
    using assms(3) by (simp add: F assembled_unit[OF a] smul_def)
  show "D i j = 0"
    using assms(3) by (simp add: D assembled_distance[OF a])
next
  assume "\<forall>k<num_cells. \<not> adjacency_matrix i k"
  then have "nonzero num_cells (adjacency_matrix i) = []"
    by (simp add: nonzero_def filter_empty_conv)
  then show "loop_body num_cells target_spring_length cell_points cell_types target_areas
                voronoi_vertices adjacency_matrix i m = Inr m"
    by (rule loop_body_no_neighbours)
next
  assume w: "\<forall>k<num_cells. cell_types k \<noteq> 1 \<and> (\<exists>l<num_cells. adjacency_matrix k l)
               \<longrightarrow> voronoi_vertices k \<noteq> []"
  show "\<exists>F' D'. calculate_force_matrix num_cells target_spring_length
                          critical_length_delta cell_points cell_types target_areas
                          voronoi_vertices adjacency_matrix = Inr (F', D')"
  proof (rule calculate_force_matrix_returns)
    fix k assume k: "k < num_cells" "cell_types k \<noteq> 1" "nonzero num_cells (adjacency_matrix k) \<noteq> []"
    then obtain l where "l \<in> set (nonzero num_cells (adjacency_matrix k))"
      by (cases "nonzero num_cells (adjacency_matrix k)") auto
    then have "\<exists>l<num_cells. adjacency_matrix k l" by (auto simp: nonzero_mem)
    then show "voronoi_vertices k \<noteq> []" using w k by blast
  qed
qed


theorem zero_where_no_edge_witness:
  "\<exists>F D. calculate_force_matrix 3 3 (1 / 2) pair_points (\<lambda>k. 0) pair_areas pair_vertices
            pair_adjacency = Inr (F, D)
         \<and> F 2 0 = Some (0, 0) \<and> D 2 0 = 0
         \<and> loop_body 3 3 pair_points (\<lambda>k. 0) pair_areas pair_vertices pair_adjacency 2 zeros
             = Inr zeros"
proof -
  have h1: "(2::nat) < 3" and h2: "(0::nat) < 3" and h3: "\<not> pair_adjacency 2 0"
    by (simp_all add: pair_adjacency_def)
  note T = zero_where_no_edge[where i = 2 and j = 0 and num_cells = 3
      and adjacency_matrix = pair_adjacency and target_spring_length = 3
      and critical_length_delta = "1 / 2" and cell_points = pair_points
      and cell_types = "\<lambda>k. 0" and target_areas = pair_areas
      and voronoi_vertices = pair_vertices, OF h1 h2 h3]
  have row: "\<forall>k<3. \<not> pair_adjacency 2 k" by (simp add: pair_adjacency_def)
  have wf: "\<forall>k<3. (0::int) \<noteq> 1 \<and> (\<exists>l<3. pair_adjacency k l) \<longrightarrow> pair_vertices k \<noteq> []"
    by (auto simp: pair_adjacency_def pair_vertices_def unit_square_def)
  from T[of "\<lambda>r c. None" "\<lambda>r c. 0" zeros] wf obtain F D where
    fd: "calculate_force_matrix 3 3 (1 / 2) pair_points (\<lambda>k. 0) pair_areas pair_vertices
           pair_adjacency = Inr (F, D)"
    by blast
  from T[of F D] fd have "F 2 0 = Some (0, 0) \<and> D 2 0 = 0" by blast
  moreover from T[of F D zeros] row
  have "loop_body 3 3 pair_points (\<lambda>k. 0) pair_areas pair_vertices pair_adjacency 2 zeros
          = Inr zeros" by blast
  ultimately show ?thesis using fd by blast
qed

lemma max_as_if: "(if (s::real) < lo then lo else s) = max lo s"
  by (simp add: max_def not_less)

lemma boundary_pair_pressure:
  "assembled 2 3 pair_points boundary_first (\<lambda>k. 1) pair_vertices pair_adjacency = Inr m
   \<Longrightarrow> pressure_matrix m 0 1 = 0"
  by (auto simp add: assembled_def upt_0_2 loop_body_def nonzero_pair_0 nonzero_pair_1
      polygon_area_unit_square Let_def set_row_def set_column_def pair_vertices_def
      boundary_first_def)

lemma ordinary_pair_pressure:
  "assembled 2 3 pair_points (boundary_first(0 := 0)) (\<lambda>k. 1) pair_vertices pair_adjacency = Inr m
   \<Longrightarrow> pressure_matrix m 0 1 = 0"
  by (auto simp add: assembled_def upt_0_2 loop_body_def nonzero_pair_0 nonzero_pair_1
      polygon_area_unit_square Let_def set_row_def set_column_def pair_vertices_def
      boundary_first_def)

text \<open>
  Claim C4. For a source cell \<open>i\<close> of type 1 and every neighbour \<open>j\<close> of it, whatever
  the type of \<open>j\<close>, the returned force is built from the spring value
  \<open>max (- critical_length_delta) (0.1 * (target_spring_length - distance))\<close>: the
  unclipped value is multiplied by 0.1 first and clipped afterwards. With cell \<open>i\<close>
  an ordinary cell and nothing else changed, the distance is the same and the spring
  value is \<open>max (- critical_length_delta) (target_spring_length - distance)\<close>, so the
  damped row is 0.1 times the unclipped row of the ordinary cell.
\<close>

theorem boundary_damping_before_clipping:
  assumes "calculate_force_matrix num_cells target_spring_length critical_length_delta
             cell_points cell_types target_areas voronoi_vertices adjacency_matrix = Inr (F, D)"
    and "cell_types i = 1" and "i < num_cells" and "j < num_cells"
    and "adjacency_matrix i j"
  shows "D i j = linalg_norm (vsub (cell_points j) (cell_points i))
       \<and> (\<exists>m. assembled num_cells target_spring_length cell_points cell_types target_areas
                 voronoi_vertices adjacency_matrix = Inr m
              \<and> F i j = map_option
                    (smul (max (- critical_length_delta) (0.1 * (target_spring_length - D i j))
                           + pressure_matrix m i j))
                    (unit_vector_matrix m i j))
       \<and> (\<forall>t F' D'.
             t \<noteq> 1
             \<and> calculate_force_matrix num_cells target_spring_length critical_length_delta
                  cell_points (cell_types(i := t)) target_areas voronoi_vertices adjacency_matrix
                 = Inr (F', D')
             \<longrightarrow> D' i j = D i j
               \<and> (\<exists>m'. assembled num_cells target_spring_length cell_points
                          (cell_types(i := t)) target_areas voronoi_vertices adjacency_matrix
                        = Inr m'
                     \<and> F' i j = map_option
                           (smul (max (- critical_length_delta) (target_spring_length - D i j)
                                  + pressure_matrix m' i j))
                           (unit_vector_matrix m' i j)))"
proof (intro conjI allI impI)
  from calculate_force_matrix_Inr[OF assms(1)] obtain m where
    a: "assembled num_cells target_spring_length cell_points cell_types target_areas
          voronoi_vertices adjacency_matrix = Inr m"
    and D: "D = distance_matrix m"
    and F: "F = (\<lambda>r c. case unit_vector_matrix m r c of
                           None \<Rightarrow> None
                         | Some u \<Rightarrow> Some (smul (clip (- critical_length_delta)
                                (damp cell_types (spring_matrix m)) r c + pressure_matrix m r c) u))"
    by blast
  show d: "D i j = linalg_norm (vsub (cell_points j) (cell_points i))"
    using assms(3,4,5) by (simp add: D assembled_distance[OF a])
  have s: "spring_matrix m i j = target_spring_length - D i j"
    using assms(3,4,5) by (simp add: d assembled_spring[OF a])
  have "F i j = map_option
                    (smul (max (- critical_length_delta) (0.1 * (target_spring_length - D i j))
                           + pressure_matrix m i j))
                    (unit_vector_matrix m i j)"
    using assms(2) s by (simp add: F clip_def damp_def max_as_if split: option.splits)
  then show "\<exists>m. assembled num_cells target_spring_length cell_points cell_types target_areas
                 voronoi_vertices adjacency_matrix = Inr m
              \<and> F i j = map_option
                    (smul (max (- critical_length_delta) (0.1 * (target_spring_length - D i j))
                           + pressure_matrix m i j))
                    (unit_vector_matrix m i j)"
    using a by blast
  fix t F' D'
  assume o: "t \<noteq> 1
             \<and> calculate_force_matrix num_cells target_spring_length critical_length_delta
                  cell_points (cell_types(i := t)) target_areas voronoi_vertices adjacency_matrix
                 = Inr (F', D')"
  from calculate_force_matrix_Inr[OF conjunct2[OF o]] obtain m' where
    a': "assembled num_cells target_spring_length cell_points (cell_types(i := t)) target_areas
          voronoi_vertices adjacency_matrix = Inr m'"
    and D': "D' = distance_matrix m'"
    and F': "F' = (\<lambda>r c. case unit_vector_matrix m' r c of
                           None \<Rightarrow> None
                         | Some u \<Rightarrow> Some (smul (clip (- critical_length_delta)
                                (damp (cell_types(i := t)) (spring_matrix m')) r c
                              + pressure_matrix m' r c) u))"
    by blast
  show d': "D' i j = D i j"
    using assms(3,4,5) by (simp add: D' d assembled_distance[OF a'])
  have s': "spring_matrix m' i j = target_spring_length - D i j"
    using assms(3,4,5) by (simp add: d assembled_spring[OF a'])
  have "F' i j = map_option
                    (smul (max (- critical_length_delta) (target_spring_length - D i j)
                           + pressure_matrix m' i j))
                    (unit_vector_matrix m' i j)"
    using o s' by (simp add: F' clip_def damp_def max_as_if split: option.splits)
  then show "\<exists>m'. assembled num_cells target_spring_length cell_points
                          (cell_types(i := t)) target_areas voronoi_vertices adjacency_matrix
                        = Inr m'
                     \<and> F' i j = map_option
                           (smul (max (- critical_length_delta) (target_spring_length - D i j)
                                  + pressure_matrix m' i j))
                           (unit_vector_matrix m' i j)"
    using a' by blast
qed

theorem boundary_damping_before_clipping_witness:
  "(\<exists>F D. calculate_force_matrix 2 3 (1 / 2) pair_points boundary_first (\<lambda>k. 1)
             pair_vertices pair_adjacency = Inr (F, D)
          \<and> D 0 1 = 5 \<and> F 0 1 = Some (- (12 / 100), - (16 / 100)))
   \<and> (\<exists>F D. calculate_force_matrix 2 3 (1 / 10) pair_points boundary_first (\<lambda>k. 1)
             pair_vertices pair_adjacency = Inr (F, D)
          \<and> F 0 1 = Some (- (6 / 100), - (8 / 100)))
   \<and> (\<exists>F' D'. calculate_force_matrix 2 3 (1 / 2) pair_points (boundary_first(0 := 0))
             (\<lambda>k. 1) pair_vertices pair_adjacency = Inr (F', D')
          \<and> F' 0 1 = Some (- (3 / 10), - (4 / 10)))"
proof -
  have b: "boundary_first 0 = 1" by (simp add: boundary_first_def)
  have i: "(0::nat) < 2" and j: "(1::nat) < 2" and e: "pair_adjacency 0 1"
    by (simp_all add: pair_adjacency_def)
  have u: "unit_vector_matrix m 0 1 = Some (3 / 5, 4 / 5)"
    if "assembled 2 3 pair_points types (\<lambda>k. 1) pair_vertices pair_adjacency = Inr m"
    for m types
    using pair_distance
    by (simp add: assembled_unit[OF that] pair_adjacency_def vdiv_def vsub_def pair_points_def)
  have part: "\<exists>F D. calculate_force_matrix 2 3 cld pair_points boundary_first (\<lambda>k. 1)
                        pair_vertices pair_adjacency = Inr (F, D)
                  \<and> D 0 1 = 5
                  \<and> F 0 1 = Some (smul (max (- cld) (- (2 / 10))) (3 / 5, 4 / 5))
                  \<and> (\<forall>F' D'. calculate_force_matrix 2 3 cld pair_points
                                 (boundary_first(0 := 0)) (\<lambda>k. 1) pair_vertices pair_adjacency
                               = Inr (F', D')
                        \<longrightarrow> F' 0 1 = Some (smul (max (- cld) (- 2)) (3 / 5, 4 / 5)))"
    for cld
  proof -
    obtain F D where fd: "calculate_force_matrix 2 3 cld pair_points boundary_first (\<lambda>k. 1)
                            pair_vertices pair_adjacency = Inr (F, D)"
      using calculate_force_matrix_returns[of 2 boundary_first pair_adjacency pair_vertices 3 cld
          pair_points "\<lambda>k. 1"]
      by (auto simp: pair_vertices_def unit_square_def)
    note T = boundary_damping_before_clipping[OF fd b i j e]
    from T have d: "D 0 1 = 5" using pair_distance by simp
    from T obtain m where
      m: "assembled 2 3 pair_points boundary_first (\<lambda>k. 1) pair_vertices pair_adjacency = Inr m"
      and f: "F 0 1 = map_option (smul (max (- cld) (0.1 * (3 - D 0 1)) + pressure_matrix m 0 1))
                        (unit_vector_matrix m 0 1)"
      by blast
    have f': "F 0 1 = Some (smul (max (- cld) (- (2 / 10))) (3 / 5, 4 / 5))"
      using f d u[OF m] boundary_pair_pressure[OF m] by simp
    have o: "F' 0 1 = Some (smul (max (- cld) (- 2)) (3 / 5, 4 / 5))"
      if c: "calculate_force_matrix 2 3 cld pair_points (boundary_first(0 := 0)) (\<lambda>k. 1)
               pair_vertices pair_adjacency = Inr (F', D')" for F' D'
    proof -
      have t: "(0::int) \<noteq> 1" by simp
      from T t c obtain m' where
        m': "assembled 2 3 pair_points (boundary_first(0 := 0)) (\<lambda>k. 1) pair_vertices
               pair_adjacency = Inr m'"
        and g: "F' 0 1 = map_option (smul (max (- cld) (3 - D 0 1) + pressure_matrix m' 0 1))
                           (unit_vector_matrix m' 0 1)"
        by blast
      show ?thesis using g d u[OF m'] ordinary_pair_pressure[OF m'] by simp
    qed
    show ?thesis using fd d f' o by blast
  qed
  have ord: "\<exists>F' D'. calculate_force_matrix 2 3 cld pair_points (boundary_first(0 := 0))
                          (\<lambda>k. 1) pair_vertices pair_adjacency = Inr (F', D')" for cld
    using calculate_force_matrix_returns[of 2 "boundary_first(0 := 0)" pair_adjacency
        pair_vertices 3 cld pair_points "\<lambda>k. 1"]
    by (auto simp: pair_vertices_def unit_square_def)
  from part[of "1 / 2"] have 1:
    "\<exists>F D. calculate_force_matrix 2 3 (1 / 2) pair_points boundary_first (\<lambda>k. 1)
             pair_vertices pair_adjacency = Inr (F, D)
          \<and> D 0 1 = 5 \<and> F 0 1 = Some (- (12 / 100), - (16 / 100))"
    by (auto simp: smul_def)
  from part[of "1 / 10"] have 2:
    "\<exists>F D. calculate_force_matrix 2 3 (1 / 10) pair_points boundary_first (\<lambda>k. 1)
             pair_vertices pair_adjacency = Inr (F, D)
          \<and> F 0 1 = Some (- (6 / 100), - (8 / 100))"
    by (auto simp: smul_def)
  from part[of "1 / 2"] ord[of "1 / 2"] have 3:
    "\<exists>F' D'. calculate_force_matrix 2 3 (1 / 2) pair_points (boundary_first(0 := 0))
             (\<lambda>k. 1) pair_vertices pair_adjacency = Inr (F', D')
          \<and> F' 0 1 = Some (- (3 / 10), - (4 / 10))"
    by (auto simp: smul_def)
  show ?thesis using 1 2 3 by blast
qed

text \<open>
  Claim C5. The spring value that enters the force is the damped value clipped from
  below at \<open>- critical_length_delta\<close>, with no upper clip: a value below the bound
  becomes the bound, a value at or above it is unchanged. With the bound \<open>- 0.5\<close>,
  \<open>- 2\<close> becomes \<open>- 0.5\<close>, while \<open>- 0.1\<close> and \<open>3\<close> stay.
\<close>

theorem spring_clipped_from_below_only:
  assumes "calculate_force_matrix num_cells target_spring_length critical_length_delta
             cell_points cell_types target_areas voronoi_vertices adjacency_matrix = Inr (F, D)"
  shows "\<exists>m. assembled num_cells target_spring_length cell_points cell_types target_areas
               voronoi_vertices adjacency_matrix = Inr m
           \<and> F r c = map_option
                 (smul (max (- critical_length_delta) (damp cell_types (spring_matrix m) r c)
                         + pressure_matrix m r c))
                 (unit_vector_matrix m r c)
           \<and> clip (- critical_length_delta) S r c = max (- critical_length_delta) (S r c)
           \<and> (S r c < - critical_length_delta
                \<longrightarrow> clip (- critical_length_delta) S r c = - critical_length_delta)
           \<and> (- critical_length_delta \<le> S r c
                \<longrightarrow> clip (- critical_length_delta) S r c = S r c)
           \<and> (S r c = - 2 \<longrightarrow> clip (- 0.5) S r c = - 0.5)
           \<and> (S r c = - 0.1 \<longrightarrow> clip (- 0.5) S r c = - 0.1)
           \<and> (S r c = 3 \<longrightarrow> clip (- 0.5) S r c = 3)"
proof -
  from calculate_force_matrix_Inr[OF assms] obtain m where
    a: "assembled num_cells target_spring_length cell_points cell_types target_areas
          voronoi_vertices adjacency_matrix = Inr m"
    and F: "F = (\<lambda>r c. case unit_vector_matrix m r c of
                           None \<Rightarrow> None
                         | Some u \<Rightarrow> Some (smul (clip (- critical_length_delta)
                                (damp cell_types (spring_matrix m)) r c + pressure_matrix m r c) u))"
    by blast
  have f: "F r c = map_option
                 (smul (max (- critical_length_delta) (damp cell_types (spring_matrix m) r c)
                         + pressure_matrix m r c))
                 (unit_vector_matrix m r c)"
    by (simp add: F clip_def max_as_if split: option.splits)
  have g: "clip lo S r c = max lo (S r c)" for lo
    by (simp add: clip_def max_as_if)
  show ?thesis using a f by (auto simp: g)
qed


lemma pair_unit_pressure:
  "assembled 2 3 pair_points (\<lambda>k. 0) (\<lambda>k. 1) pair_vertices pair_adjacency = Inr m
   \<Longrightarrow> pressure_matrix m 0 1 = 0"
  by (auto simp add: assembled_def upt_0_2 loop_body_def nonzero_pair_0 nonzero_pair_1
      polygon_area_unit_square Let_def set_row_def set_column_def pair_vertices_def)

theorem spring_clipped_from_below_only_witness:
  "\<exists>F D. calculate_force_matrix 2 3 (1 / 2) pair_points (\<lambda>k. 0) (\<lambda>k. 1) pair_vertices
            pair_adjacency = Inr (F, D)
         \<and> F 0 1 = Some (- (3 / 10), - (4 / 10))"
proof -
  obtain F D where fd: "calculate_force_matrix 2 3 (1 / 2) pair_points (\<lambda>k. 0) (\<lambda>k. 1)
                          pair_vertices pair_adjacency = Inr (F, D)"
    using calculate_force_matrix_returns[of 2 "\<lambda>k. 0" pair_adjacency pair_vertices 3 "1 / 2"
        pair_points "\<lambda>k. 1"]
    by (auto simp: pair_vertices_def unit_square_def)
  from spring_clipped_from_below_only[OF fd, of 0 1] obtain m where
    m: "assembled 2 3 pair_points (\<lambda>k. 0) (\<lambda>k. 1) pair_vertices pair_adjacency = Inr m"
    and f: "F 0 1 = map_option
              (smul (max (- (1 / 2)) (damp (\<lambda>k. 0) (spring_matrix m) 0 1) + pressure_matrix m 0 1))
              (unit_vector_matrix m 0 1)"
    by blast
  have s: "spring_matrix m 0 1 = - 2"
    using pair_distance by (simp add: assembled_spring[OF m] pair_adjacency_def)
  have u: "unit_vector_matrix m 0 1 = Some (3 / 5, 4 / 5)"
    using pair_distance
    by (simp add: assembled_unit[OF m] pair_adjacency_def vdiv_def vsub_def pair_points_def)
  have "F 0 1 = Some (- (3 / 10), - (4 / 10))"
    using f s u pair_unit_pressure[OF m] by (simp add: damp_def smul_def)
  then show ?thesis using fd by blast
qed

section \<open>Properties of the boundary reflection\<close>

lemma linalg_norm_nonneg: "0 \<le> linalg_norm v"
  by (simp add: linalg_norm_def)

lemma linalg_norm_eq_0: "linalg_norm v = 0 \<longleftrightarrow> v = (0, 0)"
  by (cases v) (simp add: linalg_norm_def sum_power2_eq_zero_iff)

lemma linalg_norm_square: "linalg_norm v * linalg_norm v = (fst v)\<^sup>2 + (snd v)\<^sup>2"
  by (simp add: linalg_norm_def)

lemma vsub_eq_0: "vsub u v = (0, 0) \<longleftrightarrow> u = v"
  by (cases u, cases v) (simp add: vsub_def)

lemma norms_product_0:
  "linalg_norm (vsub c a) * linalg_norm (vsub c b) = 0 \<longleftrightarrow> c = a \<or> c = b"
  by (simp add: linalg_norm_eq_0 vsub_eq_0)

lemma angle_cosine_neg_iff:
  assumes "c \<noteq> a" "c \<noteq> b"
  shows "angle_cosine a b c < 0 \<longleftrightarrow> dot (vsub c a) (vsub c b) < 0"
proof -
  have "0 < linalg_norm (vsub c a) * linalg_norm (vsub c b)"
    using assms norms_product_0[of c a b]
      linalg_norm_nonneg[of "vsub c a"] linalg_norm_nonneg[of "vsub c b"]
    by (metis mult_nonneg_nonneg order_le_less)
  then show ?thesis by (simp add: angle_cosine_def divide_less_0_iff not_less_iff_gr_or_eq)
qed

lemma dot_self_nonneg: "0 \<le> dot v v"
  by (simp add: dot_def)

lemma obtuse_edge_proper:
  assumes "dot (vsub c a) (vsub c b) < 0"
  shows "a \<noteq> b"
  using assms dot_self_nonneg[of "vsub c a"] by auto

lemma calculate_boundary_reflection_obtuse:
  assumes "c \<noteq> a" "c \<noteq> b" "angle_cosine a b c < 0"
  shows "calculate_boundary_reflection a b c
           = Inr (True, Some (vsub (smul 2 (projected_point a b c)) c))"
proof -
  have d: "dot (vsub c a) (vsub c b) < 0"
    using assms angle_cosine_neg_iff by blast
  then have "a \<noteq> b" by (rule obtuse_edge_proper)
  then have e: "linalg_norm (vsub b a) \<noteq> 0"
    by (simp add: linalg_norm_eq_0 vsub_eq_0)
  have n: "linalg_norm (vsub c a) * linalg_norm (vsub c b) \<noteq> 0"
    using assms(1,2) norms_product_0[of c a b] by blast
  show ?thesis
    using n e assms(3)
    by (simp add: calculate_boundary_reflection_def Let_def angle_cosine_def projected_point_def)
qed

lemma calculate_boundary_reflection_acute:
  assumes "c \<noteq> a" "c \<noteq> b" "\<not> angle_cosine a b c < 0"
  shows "calculate_boundary_reflection a b c = Inr (False, None)"
proof -
  have n: "linalg_norm (vsub c a) * linalg_norm (vsub c b) \<noteq> 0"
    using assms(1,2) norms_product_0[of c a b] by blast
  show ?thesis
    using n assms(3)
    by (simp add: calculate_boundary_reflection_def Let_def angle_cosine_def)
qed

lemma reflection_below_edge:
  "calculate_boundary_reflection (0, 0) (10, 0) (5, - 1) = Inr (True, Some (5, 1))"
  by (simp add: calculate_boundary_reflection_def Let_def vsub_def vadd_def smul_def vdiv_def
      dot_def linalg_norm_def)

lemma reflection_above_edge:
  "calculate_boundary_reflection (0, 0) (10, 0) (5, 1) = Inr (True, Some (5, - 1))"
  by (simp add: calculate_boundary_reflection_def Let_def vsub_def vadd_def smul_def vdiv_def
      dot_def linalg_norm_def)

lemma angle_cosine_above_edge: "angle_cosine (0, 0) (10, 0) (5, 1) = - (12 / 13)"
  by (simp add: angle_cosine_def vsub_def dot_def linalg_norm_def)

lemma angle_cosine_far_above_edge: "angle_cosine (0, 0) (10, 0) (5, 6) = 11 / 61"
  by (simp add: angle_cosine_def vsub_def dot_def linalg_norm_def)

text \<open>
  Claim C6, as the code has it. For a point \<open>c\<close> other than \<open>a\<close> and \<open>b\<close>: when the
  cosine of the angle between \<open>c - a\<close> and \<open>c - b\<close> is negative, the call returns true
  and \<open>2 * p - c\<close>, with \<open>p\<close> the point \<open>a\<close> plus the projection of \<open>c - a\<close> onto the
  unit edge direction; when it is not negative, the call returns the flag false. The
  test is blind to the side of the edge: for \<open>a = (0, 0)\<close>, \<open>b = (10, 0)\<close> the point
  \<open>(5, - 1)\<close> is reflected to \<open>(5, 1)\<close> and the point \<open>(5, 1)\<close> to \<open>(5, - 1)\<close>.
\<close>

theorem reflection_by_cosine_sign:
  assumes "c \<noteq> a" and "c \<noteq> b"
  shows "(angle_cosine a b c < 0 \<longrightarrow>
            calculate_boundary_reflection a b c
              = Inr (True, Some (vsub (smul 2 (projected_point a b c)) c)))
       \<and> (\<not> angle_cosine a b c < 0 \<longrightarrow>
            (\<exists>p. calculate_boundary_reflection a b c = Inr (False, p)))
       \<and> calculate_boundary_reflection (0, 0) (10, 0) (5, - 1) = Inr (True, Some (5, 1))
       \<and> calculate_boundary_reflection (0, 0) (10, 0) (5, 1) = Inr (True, Some (5, - 1))"
  using calculate_boundary_reflection_obtuse[OF assms]
    calculate_boundary_reflection_acute[OF assms]
    reflection_below_edge reflection_above_edge
  by blast

theorem reflection_by_cosine_sign_witness:
  "\<exists>p. calculate_boundary_reflection (0, 0) (10, 0) (5, 6) = Inr (False, p)"
proof -
  have h1: "(5, 6) \<noteq> ((0, 0) :: vec)" and h2: "(5, 6) \<noteq> ((10, 0) :: vec)" by simp_all
  have h3: "\<not> angle_cosine (0, 0) (10, 0) (5, 6) < 0"
    by (simp add: angle_cosine_far_above_edge)
  from reflection_by_cosine_sign[OF h1 h2] h3 show ?thesis by blast
qed

text \<open>
  The point \<open>(5, 1)\<close> above the edge from \<open>(0, 0)\<close> to \<open>(10, 0)\<close> sees the edge under
  an obtuse angle as well, so it is reflected too, to \<open>(5, - 1)\<close>: the flag is not false.
\<close>

theorem reflection_above_edge_counterexample:
  "angle_cosine (0, 0) (10, 0) (5, 1) = - (12 / 13)
   \<and> calculate_boundary_reflection (0, 0) (10, 0) (5, 1) = Inr (True, Some (5, - 1))"
  using angle_cosine_above_edge reflection_above_edge by simp

lemma projection_vector_eq:
  assumes "linalg_norm e \<noteq> 0"
  shows "smul (dot v (vdiv e (linalg_norm e))) (vdiv e (linalg_norm e))
           = smul (dot v e / ((fst e)\<^sup>2 + (snd e)\<^sup>2)) e"
proof -
  have "linalg_norm e * linalg_norm e = (fst e)\<^sup>2 + (snd e)\<^sup>2"
    by (rule linalg_norm_square)
  then show ?thesis
    using assms
    by (simp add: smul_def dot_def vdiv_def add_divide_distrib[symmetric] distrib_right[symmetric])
qed

lemma reflected_point_form:
  assumes "calculate_boundary_reflection a b c = Inr (True, r')" and "a \<noteq> b"
  shows "r' = Some (vsub (smul 2 (vadd a (smul (dot (vsub c a) (vsub b a)
                      / ((fst (vsub b a))\<^sup>2 + (snd (vsub b a))\<^sup>2)) (vsub b a)))) c)"
proof -
  have e: "linalg_norm (vsub b a) \<noteq> 0"
    using assms(2) by (simp add: linalg_norm_eq_0 vsub_eq_0)
  show ?thesis
    using assms(1) e projection_vector_eq[OF e, of "vsub c a"]
    by (auto simp: calculate_boundary_reflection_def Let_def split: if_splits)
qed

lemma mirror_algebra:
  fixes ax ay bx bz cx cy :: real
  assumes "(bx - ax)\<^sup>2 + (bz - ay)\<^sup>2 \<noteq> 0"
  defines "k \<equiv> ((cx - ax) * (bx - ax) + (cy - ay) * (bz - ay)) / ((bx - ax)\<^sup>2 + (bz - ay)\<^sup>2)"
  defines "r1 \<equiv> 2 * (ax + k * (bx - ax)) - cx"
  defines "r2 \<equiv> 2 * (ay + k * (bz - ay)) - cy"
  shows "(bx - ax) * (1 / 2 * (cy + r2) - ay) - (bz - ay) * (1 / 2 * (cx + r1) - ax) = 0"
    and "(bx - ax) * (r2 - ay) - (bz - ay) * (r1 - ax)
           = - ((bx - ax) * (cy - ay) - (bz - ay) * (cx - ax))"
    and "(r1 - cx) * (bx - ax) + (r2 - cy) * (bz - ay) = 0"
proof -
  define D where "D = (bx - ax)\<^sup>2 + (bz - ay)\<^sup>2"
  have D: "D \<noteq> 0" using assms(1) by (simp add: D_def)
  have kD: "k * D = (cx - ax) * (bx - ax) + (cy - ay) * (bz - ay)"
    using D by (simp add: k_def D_def)
  show "(bx - ax) * (1 / 2 * (cy + r2) - ay) - (bz - ay) * (1 / 2 * (cx + r1) - ax) = 0"
    by (simp add: r1_def r2_def algebra_simps)
  show "(bx - ax) * (r2 - ay) - (bz - ay) * (r1 - ax)
           = - ((bx - ax) * (cy - ay) - (bz - ay) * (cx - ax))"
    by (simp add: r1_def r2_def algebra_simps)
  have "(r1 - cx) * (bx - ax) + (r2 - cy) * (bz - ay)
          = 2 * (k * D - ((cx - ax) * (bx - ax) + (cy - ay) * (bz - ay)))"
    by (simp add: r1_def r2_def D_def power2_eq_square algebra_simps)
  then show "(r1 - cx) * (bx - ax) + (r2 - cy) * (bz - ay) = 0"
    by (simp add: kD)
qed

text \<open>
  Claim C10. When the call returns true for an edge with \<open>a \<noteq> b\<close>, it returns a point
  \<open>r\<close> that is the mirror image of \<open>c\<close> across the line through \<open>a\<close> and \<open>b\<close>: the
  midpoint of \<open>c\<close> and \<open>r\<close> lies on that line, \<open>r\<close> and \<open>c\<close> are at the same distance
  from it, and \<open>r - c\<close> is perpendicular to the edge.
\<close>

theorem reflection_is_mirror_image:
  assumes "calculate_boundary_reflection a b c = Inr (True, r')" and "a \<noteq> b"
  shows "\<exists>r. r' = Some r
           \<and> on_line a b (midpoint c r)
           \<and> dist_to_line a b r = dist_to_line a b c
           \<and> dot (vsub r c) (vsub b a) = 0"
proof -
  obtain a1 a2 where a: "a = (a1, a2)" by (cases a)
  obtain b1 b2 where b: "b = (b1, b2)" by (cases b)
  obtain c1 c2 where c: "c = (c1, c2)" by (cases c)
  have D: "(b1 - a1)\<^sup>2 + (b2 - a2)\<^sup>2 \<noteq> 0"
    using assms(2) by (auto simp add: a b sum_power2_eq_zero_iff)
  define k where "k = ((c1 - a1) * (b1 - a1) + (c2 - a2) * (b2 - a2)) / ((b1 - a1)\<^sup>2 + (b2 - a2)\<^sup>2)"
  define r where "r = (2 * (a1 + k * (b1 - a1)) - c1, 2 * (a2 + k * (b2 - a2)) - c2)"
  have r': "r' = Some r"
    using reflected_point_form[OF assms]
    by (simp add: a b c r_def k_def vsub_def vadd_def smul_def dot_def)
  note M = mirror_algebra[where cx = c1 and cy = c2, OF D, folded k_def]
  have 1: "on_line a b (midpoint c r)"
    using M(1) by (simp add: on_line_def midpoint_def cross_def vsub_def vadd_def smul_def a b c r_def)
  have 2: "cross (vsub b a) (vsub r a) = - cross (vsub b a) (vsub c a)"
    using M(2) by (simp add: cross_def vsub_def a b c r_def)
  have 3: "dot (vsub r c) (vsub b a) = 0"
    using M(3) by (simp add: dot_def vsub_def a b c r_def)
  have "dist_to_line a b r = dist_to_line a b c"
    by (simp add: dist_to_line_def 2)
  then show ?thesis using r' 1 3 by blast
qed

theorem reflection_is_mirror_image_witness:
  "calculate_boundary_reflection (0, 0) (10, 0) (5, - 1) = Inr (True, Some (5, 1))
   \<and> on_line (0, 0) (10, 0) (midpoint (5, - 1) (5, 1))
   \<and> dist_to_line (0, 0) (10, 0) (5, 1) = dist_to_line (0, 0) (10, 0) (5, - 1)
   \<and> dist_to_line (0, 0) (10, 0) (5, - 1) = 1"
proof -
  have h: "(0, 0) \<noteq> ((10, 0) :: vec)" by simp
  from reflection_is_mirror_image[OF reflection_below_edge h]
  have "on_line (0, 0) (10, 0) (midpoint (5, - 1) (5, 1))
      \<and> dist_to_line (0, 0) (10, 0) (5, 1) = dist_to_line (0, 0) (10, 0) (5, - 1)"
    by simp
  moreover have "dist_to_line (0, 0) (10, 0) (5, - 1) = 1"
    by (simp add: dist_to_line_def cross_def vsub_def linalg_norm_def)
  ultimately show ?thesis using reflection_below_edge by simp
qed

section \<open>Properties of the hexagonal grid layout\<close>

lemma int64_id: "is_int64 v \<Longrightarrow> int64 v = v"
  by (simp add: int64_def is_int64_def)

lemma is_int64_int64: "is_int64 (int64 v)"
proof -
  have "0 \<le> (v + 2 ^ 63) mod (2 ^ 64 :: int)" by simp
  moreover have "(v + 2 ^ 63) mod (2 ^ 64 :: int) < 2 ^ 64" by simp
  ultimately show ?thesis by (simp add: int64_def is_int64_def)
qed

lemma int64_eq_0_iff: "int64 v = 0 \<longleftrightarrow> (2 ^ 64 :: int) dvd v"
proof -
  have h: "(2 ^ 63 :: int) mod 2 ^ 64 = 2 ^ 63" by simp
  have "int64 v = 0 \<longleftrightarrow> (v + 2 ^ 63) mod 2 ^ 64 = (2 ^ 63 :: int) mod 2 ^ 64"
    by (simp add: int64_def)
  also have "\<dots> \<longleftrightarrow> (2 ^ 64 :: int) dvd (v + 2 ^ 63) - 2 ^ 63"
    by (rule mod_eq_dvd_iff)
  finally show ?thesis by simp
qed

lemma int64_triple_nonzero:
  assumes "1 \<le> i" and "i < 2 ^ 63"
  shows "int64 (3 * i) \<noteq> 0"
proof
  assume "int64 (3 * i) = 0"
  then have "(2 ^ 64 :: int) dvd 3 * i" by (simp add: int64_eq_0_iff)
  moreover have "coprime (2 ^ 64 :: int) 3"
  proof -
    have "coprime (2::int) 3" using coprime_add_one_right[of "2::int"] by simp
    then show ?thesis using coprime_power_left_iff[of "2::int" 64 3] by blast
  qed
  ultimately have "(2 ^ 64 :: int) dvd i"
    by (simp add: coprime_dvd_mult_right_iff)
  then have "(2 ^ 64 :: int) \<le> i" using assms(1) by (intro zdvd_imp_le) simp_all
  then show False using assms(2) by simp
qed

lemma is_int64_small: "0 \<le> v \<Longrightarrow> v < 2 ^ 40 \<Longrightarrow> is_int64 v"
  by (simp add: is_int64_def)

lemma ring_point_eq:
  assumes "1 \<le> i" and "i < 2 ^ 32"
  shows "ring_point cx cy i j =
           Inr (cx + real_of_int i * cos (ring_angle i j), cy + real_of_int i * sin (ring_angle i j))"
proof -
  have w: "int64 (3 * i) = 3 * i"
    using assms by (intro int64_id is_int64_small) simp_all
  have "real_of_int j * pi / real_of_int (3 * i) + pi / real_of_int (3 * i)
          = real_of_int (j + 1) * pi / real_of_int (3 * i)"
    by (simp add: add_divide_distrib distrib_right)
  then show ?thesis
    using assms(1) by (simp add: ring_point_def w ring_angle_def Let_def even_iff_mod_2_eq_zero)
qed

lemma for_j_eq:
  assumes "1 \<le> i" and "i < 2 ^ 32"
  shows "for_j cx cy i js points =
           Inr (points @ map (\<lambda>j. (cx + real_of_int i * cos (ring_angle i j),
                                     cy + real_of_int i * sin (ring_angle i j))) js)"
  by (induction js arbitrary: points) (simp_all add: ring_point_eq[OF assms])

lemma for_i_eq:
  assumes "\<forall>i\<in>set rings. 1 \<le> i \<and> i < 2 ^ 32"
  shows "for_i cx cy rings points = Inr (points @ concat (map (hex_ring cx cy) rings))"
  using assms
proof (induction rings arbitrary: points)
  case Nil
  then show ?case by simp
next
  case (Cons i rest)
  then have i: "1 \<le> i" "i < 2 ^ 32" by simp_all
  have w: "int64 (6 * i) = 6 * i"
    using i by (intro int64_id is_int64_small) simp_all
  show ?case
    using Cons by (simp add: for_j_eq[OF i] w hex_ring_def)
qed

lemma for_j_returns:
  assumes "int64 (3 * i) \<noteq> 0"
  shows "\<exists>rest. for_j cx cy i js points = Inr (points @ rest)"
proof (induction js arbitrary: points)
  case Nil
  then show ?case by simp
next
  case (Cons j js)
  obtain p where p: "ring_point cx cy i j = Inr p"
    using assms by (simp add: ring_point_def Let_def)
  from Cons[of "points @ [p]"] obtain rest where
    "for_j cx cy i js (points @ [p]) = Inr ((points @ [p]) @ rest)" by blast
  then show ?case using p by simp
qed

lemma for_i_returns:
  assumes "\<forall>i\<in>set rings. 1 \<le> i \<and> i < 2 ^ 63"
  shows "\<exists>rest. for_i cx cy rings points = Inr (points @ rest)"
  using assms
proof (induction rings arbitrary: points)
  case Nil
  then show ?case by simp
next
  case (Cons i rings)
  then have "int64 (3 * i) \<noteq> 0" by (simp add: int64_triple_nonzero)
  from for_j_returns[OF this, of cx cy "[0..int64 (6 * i) - 1]" points] obtain r1 where
    r1: "for_j cx cy i [0..int64 (6 * i) - 1] points = Inr (points @ r1)" by blast
  from Cons.IH[of "points @ r1"] Cons.prems obtain r2 where
    "for_i cx cy rings (points @ r1) = Inr ((points @ r1) @ r2)" by auto
  then show ?case using r1 by simp
qed

lemma hexagonal_grid_layout_returns:
  "\<exists>rest. hexagonal_grid_layout nan_to_int num_cells x y
            = Inr ((real_of_int x / 2, real_of_int y / 2) # rest)"
proof -
  have "int64 (num_rings nan_to_int num_cells + 1) < 2 ^ 63"
    using is_int64_int64[of "num_rings nan_to_int num_cells + 1"] by (simp add: is_int64_def)
  then have "\<forall>i\<in>set [1..int64 (num_rings nan_to_int num_cells + 1) - 1]. 1 \<le> i \<and> i < 2 ^ 63"
    by simp
  from for_i_returns[OF this, of "real_of_int x / 2" "real_of_int y / 2"
      "[(real_of_int x / 2, real_of_int y / 2)]"]
  show ?thesis by (simp add: hexagonal_grid_layout_def Let_def)
qed

lemma hexagonal_grid_layout_eq:
  assumes "0 \<le> num_rings nan_to_int num_cells" and "num_rings nan_to_int num_cells < 2 ^ 32"
  shows "hexagonal_grid_layout nan_to_int num_cells x y =
     Inr ((real_of_int x / 2, real_of_int y / 2)
          # concat (map (hex_ring (real_of_int x / 2) (real_of_int y / 2))
                      [1..num_rings nan_to_int num_cells]))"
proof -
  have w: "int64 (num_rings nan_to_int num_cells + 1) = num_rings nan_to_int num_cells + 1"
    using assms by (intro int64_id is_int64_small) simp_all
  have "\<forall>i\<in>set [1..num_rings nan_to_int num_cells]. 1 \<le> i \<and> i < 2 ^ 32"
    using assms(2) by simp
  then show ?thesis
    by (simp add: hexagonal_grid_layout_def Let_def w for_i_eq)
qed

lemma layout_no_ring:
  assumes "is_int64 (num_rings nan_to_int num_cells)" and "num_rings nan_to_int num_cells < 1"
  shows "hexagonal_grid_layout nan_to_int num_cells x y
           = Inr [(real_of_int x / 2, real_of_int y / 2)]"
proof -
  have "is_int64 (num_rings nan_to_int num_cells + 1)"
    using assms by (simp add: is_int64_def)
  then have "int64 (num_rings nan_to_int num_cells + 1) = num_rings nan_to_int num_cells + 1"
    by (rule int64_id)
  then show ?thesis using assms(2) by (simp add: hexagonal_grid_layout_def Let_def)
qed

lemma length_hex_ring: "length (hex_ring cx cy i) = nat (6 * i)"
  by (simp add: hex_ring_def)

lemma length_rings_nat:
  "length (concat (map (hex_ring cx cy) [1..int m])) = 3 * m * (m + 1)"
proof (induction m)
  case 0
  then show ?case by simp
next
  case (Suc m)
  have "[1..int (Suc m)] = [1..int m] @ [int m + 1]"
    using upto_rec2[of 1 "int m + 1"] by (simp add: add.commute)
  moreover have "nat (6 * (int m + 1)) = 6 * (m + 1)"
    by (simp add: nat_eq_iff)
  ultimately show ?case
    by (simp add: Suc.IH length_hex_ring algebra_simps)
qed

lemma length_rings:
  assumes "0 \<le> r"
  shows "length (concat (map (hex_ring cx cy) [1..r])) = nat (3 * r * (r + 1))"
proof -
  obtain m where r: "r = int m" using assms nonneg_int_cases by blast
  have "nat (3 * int m * (int m + 1)) = 3 * m * (m + 1)"
    by (simp add: nat_eq_iff algebra_simps)
  then show ?thesis by (simp add: r length_rings_nat)
qed

lemma hex_ring_radius:
  assumes "p \<in> set (hex_ring cx cy i)"
  shows "linalg_norm (vsub p (cx, cy)) = \<bar>real_of_int i\<bar>"
proof -
  from assms obtain j where p: "p = (cx + real_of_int i * cos (ring_angle i j),
                                      cy + real_of_int i * sin (ring_angle i j))"
    by (auto simp: hex_ring_def)
  have "(real_of_int i * cos (ring_angle i j))\<^sup>2 + (real_of_int i * sin (ring_angle i j))\<^sup>2
          = (real_of_int i)\<^sup>2 * ((cos (ring_angle i j))\<^sup>2 + (sin (ring_angle i j))\<^sup>2)"
    by (simp only: power_mult_distrib distrib_left)
  also have "\<dots> = (real_of_int i)\<^sup>2"
    by (simp only: sin_cos_squared_add2 mult.right_neutral)
  finally have sq: "(real_of_int i * cos (ring_angle i j))\<^sup>2
                      + (real_of_int i * sin (ring_angle i j))\<^sup>2 = (real_of_int i)\<^sup>2" .
  have "linalg_norm (vsub p (cx, cy))
          = sqrt ((real_of_int i * cos (ring_angle i j))\<^sup>2
                  + (real_of_int i * sin (ring_angle i j))\<^sup>2)"
    by (simp add: p linalg_norm_def vsub_def)
  also have "\<dots> = sqrt ((real_of_int i)\<^sup>2)" by (simp only: sq)
  also have "\<dots> = \<bar>real_of_int i\<bar>" by simp
  finally show ?thesis .
qed

lemma ring_angle_increasing:
  assumes "0 < i" and "j < j'"
  shows "ring_angle i j < ring_angle i j'"
  unfolding ring_angle_def
proof (rule divide_strict_right_mono)
  show "real_of_int (j + (if even i then 1 else 0)) * pi
          < real_of_int (j' + (if even i then 1 else 0)) * pi"
    using assms(2) by simp
  show "0 < real_of_int (3 * i)" using assms(1) by simp
qed

lemma ring_angles_sorted:
  assumes "0 < i"
  shows "sorted_wrt (<) (map (ring_angle i) [0..6 * i - 1])"
proof -
  have "sorted_wrt (<) [0..6 * i - 1]"
    by (simp add: strict_sorted_iff)
  then have "sorted_wrt (\<lambda>j j'. ring_angle i j < ring_angle i j') [0..6 * i - 1]"
    by (rule sorted_wrt_mono_rel[rotated]) (simp add: ring_angle_increasing[OF assms])
  then show ?thesis by (simp add: sorted_wrt_map)
qed

lemma ring_angles_one_turn:
  assumes "0 < i"
  shows "ring_angle i (6 * i - 1) - ring_angle i 0 < 2 * pi"
proof -
  have "ring_angle i (6 * i - 1) - ring_angle i 0 = real_of_int (6 * i - 1) * pi / real_of_int (3 * i)"
    by (simp add: ring_angle_def diff_divide_distrib[symmetric] left_diff_distrib[symmetric])
  also have "\<dots> < real_of_int (6 * i) * pi / real_of_int (3 * i)"
  proof (rule divide_strict_right_mono)
    show "real_of_int (6 * i - 1) * pi < real_of_int (6 * i) * pi" by simp
    show "0 < real_of_int (3 * i)" using assms by simp
  qed
  also have "\<dots> = 2 * pi" using assms by simp
  finally show ?thesis .
qed

lemma radicand_no_wrap:
  assumes "- max_cells \<le> num_cells" and "num_cells \<le> max_cells"
  shows "int64 (int64 (12 * num_cells) - 3) = 12 * num_cells - 3"
proof -
  have a: "is_int64 (12 * num_cells)"
    using assms by (simp add: is_int64_def max_cells_def)
  have b: "is_int64 (12 * num_cells - 3)"
    using assms by (simp add: is_int64_def max_cells_def)
  show ?thesis by (simp add: int64_id[OF a] int64_id[OF b])
qed

lemma num_rings_defined:
  assumes "1 \<le> num_cells" and "num_cells \<le> max_cells"
  shows "num_rings nan_to_int num_cells = \<lfloor>1 / 2 + sqrt (real_of_int (12 * num_cells - 3)) / 6\<rfloor>"
proof -
  have "- max_cells \<le> num_cells" using assms(1) by (simp add: max_cells_def)
  from radicand_no_wrap[OF this assms(2)] show ?thesis
    using assms(1) by (simp add: num_rings_def Let_def)
qed

lemma num_rings_nan:
  assumes "- max_cells \<le> num_cells" and "num_cells < 1"
  shows "num_rings nan_to_int num_cells = nan_to_int"
proof -
  have "num_cells \<le> max_cells" using assms(2) by (simp add: max_cells_def)
  from radicand_no_wrap[OF assms(1) this] show ?thesis
    using assms(2) by (simp add: num_rings_def Let_def)
qed

lemma num_rings_7: "num_rings nan_to_int 7 = 2"
  by (simp add: num_rings_defined max_cells_def)

lemma num_rings_19: "num_rings nan_to_int 19 = 3"
  by (simp add: num_rings_defined max_cells_def)

lemma num_rings_1: "num_rings nan_to_int 1 = 1"
  by (simp add: num_rings_defined max_cells_def)

lemma num_rings_bounds:
  assumes "1 \<le> num_cells" and "num_cells \<le> max_cells"
  shows "1 \<le> num_rings nan_to_int num_cells"
    and "num_cells < 1 + 3 * num_rings nan_to_int num_cells * (num_rings nan_to_int num_cells + 1)"
    and "num_rings nan_to_int num_cells < 2 ^ 32"
proof -
  define s where "s = sqrt (real_of_int (12 * num_cells - 3))"
  define r where "r = num_rings nan_to_int num_cells"
  have r: "r = \<lfloor>1 / 2 + s / 6\<rfloor>"
    using assms by (simp add: r_def s_def num_rings_defined)
  have arg: "9 \<le> real_of_int (12 * num_cells - 3)" using assms(1) by simp
  have "sqrt 9 \<le> s" unfolding s_def using arg by (rule real_sqrt_le_mono)
  then have s3: "3 \<le> s" by simp
  then have "1 \<le> 1 / 2 + s / 6" by simp
  then have "\<lfloor>1::real\<rfloor> \<le> \<lfloor>1 / 2 + s / 6\<rfloor>" by (rule floor_mono)
  then show "1 \<le> num_rings nan_to_int num_cells" using r by (simp add: r_def)
  have "1 / 2 + s / 6 - 1 < real_of_int r"
    unfolding r by (rule real_of_int_floor_gt_diff_one)
  then have lt: "s < 6 * real_of_int r + 3" by simp
  have s0: "0 \<le> s" using s3 by simp
  have "s\<^sup>2 < (6 * real_of_int r + 3)\<^sup>2"
    using lt s0 by (rule power_strict_mono) simp
  moreover have "s\<^sup>2 = real_of_int (12 * num_cells - 3)"
    unfolding s_def using arg by simp
  ultimately have "real_of_int (12 * num_cells - 3) < (6 * real_of_int r + 3)\<^sup>2" by simp
  also have "(6 * real_of_int r + 3)\<^sup>2 = real_of_int ((6 * r + 3)\<^sup>2)" by simp
  finally have "12 * num_cells - 3 < (6 * r + 3)\<^sup>2" by (simp only: of_int_less_iff)
  then have "12 * num_cells < 12 * (1 + 3 * r * (r + 1))"
    by (simp add: power2_eq_square algebra_simps)
  then show "num_cells < 1 + 3 * num_rings nan_to_int num_cells * (num_rings nan_to_int num_cells + 1)"
    by (simp add: r_def)
  have "real_of_int (12 * num_cells - 3) < (2 ^ 32)\<^sup>2"
    using assms(2) by (simp add: max_cells_def)
  then have "s < sqrt ((2 ^ 32)\<^sup>2)"
    unfolding s_def by (rule real_sqrt_less_mono)
  then have "s < 2 ^ 32" by simp
  moreover have "real_of_int r \<le> 1 / 2 + s / 6"
    unfolding r by (rule of_int_floor_le)
  ultimately have "real_of_int r < 2 ^ 32" by simp
  then have "r < 2 ^ 32" by (simp only: of_int_less_numeral_power_cancel_iff)
  then show "num_rings nan_to_int num_cells < 2 ^ 32" by (simp add: r_def)
qed

lemma num_points_layout:
  assumes "0 \<le> num_rings nan_to_int num_cells" and "num_rings nan_to_int num_cells < 2 ^ 32"
  shows "num_points (hexagonal_grid_layout nan_to_int num_cells x y)
           = Inr (1 + nat (3 * num_rings nan_to_int num_cells
                             * (num_rings nan_to_int num_cells + 1)))"
  by (simp add: num_points_def hexagonal_grid_layout_eq[OF assms] length_rings[OF assms(1)])

lemma layout_7: "num_points (hexagonal_grid_layout nan_to_int 7 x y) = Inr 19"
  by (simp add: num_points_layout num_rings_7)

lemma layout_19: "num_points (hexagonal_grid_layout nan_to_int 19 x y) = Inr 37"
  by (simp add: num_points_layout num_rings_19)

lemma upto_1_1: "[1..1] = [1::int]"
  by (simp add: upto_rec1)

lemma upto_1_2: "[1..2] = [1, 2::int]"
  by (simp add: upto_rec1)

lemma upto_1_3: "[1..3] = [1, 2, 3::int]"
  by (simp add: upto_rec1)

lemma num_rings_wrapped_high: "num_rings nan_to_int 4611686018427387911 = 2"
  by (simp add: num_rings_def int64_def)

lemma num_rings_wrapped_low: "num_rings nan_to_int (- 4611686018427387897) = 2"
  by (simp add: num_rings_def int64_def)

lemma layout_wrapped_high:
  "num_points (hexagonal_grid_layout nan_to_int 4611686018427387911 x y) = Inr 19"
  by (simp add: num_points_layout num_rings_wrapped_high)

lemma layout_wrapped_low:
  "num_points (hexagonal_grid_layout nan_to_int (- 4611686018427387897) x y) = Inr 19"
  by (simp add: num_points_layout num_rings_wrapped_low)

text \<open>
  Claim C2, as the code has it. The ring count is
  \<open>\<lfloor>1 / 2 + sqrt (12 * num_cells - 3) / 6\<rfloor>\<close>. For \<open>num_cells = 7\<close> it is 2, and the
  layout is the centre, ring 1 with 6 points and ring 2 with 12 points, 19 points in all;
  for \<open>num_cells = 19\<close> it is 3, and the layout has \<open>1 + 6 + 12 + 18 = 37\<close> points.
\<close>

theorem hexagonal_grid_layout_7_and_19:
  "num_rings nan_to_int 7 = \<lfloor>1 / 2 + sqrt (real_of_int (12 * 7 - 3)) / 6\<rfloor>
   \<and> num_rings nan_to_int 7 = 2
   \<and> hexagonal_grid_layout nan_to_int 7 x y
       = Inr ((real_of_int x / 2, real_of_int y / 2)
              # hex_ring (real_of_int x / 2) (real_of_int y / 2) 1
              @ hex_ring (real_of_int x / 2) (real_of_int y / 2) 2)
   \<and> num_points (hexagonal_grid_layout nan_to_int 7 x y) = Inr (1 + 6 + 12)
   \<and> num_rings nan_to_int 19 = \<lfloor>1 / 2 + sqrt (real_of_int (12 * 19 - 3)) / 6\<rfloor>
   \<and> num_rings nan_to_int 19 = 3
   \<and> hexagonal_grid_layout nan_to_int 19 x y
       = Inr ((real_of_int x / 2, real_of_int y / 2)
              # hex_ring (real_of_int x / 2) (real_of_int y / 2) 1
              @ hex_ring (real_of_int x / 2) (real_of_int y / 2) 2
              @ hex_ring (real_of_int x / 2) (real_of_int y / 2) 3)
   \<and> num_points (hexagonal_grid_layout nan_to_int 19 x y) = Inr (1 + 6 + 12 + 18)
   \<and> length (hex_ring (real_of_int x / 2) (real_of_int y / 2) 1) = 6
   \<and> length (hex_ring (real_of_int x / 2) (real_of_int y / 2) 2) = 12
   \<and> length (hex_ring (real_of_int x / 2) (real_of_int y / 2) 3) = 18"
proof -
  have a: "num_rings nan_to_int 7 = \<lfloor>1 / 2 + sqrt (real_of_int (12 * 7 - 3)) / 6\<rfloor>"
    by (rule num_rings_defined) (simp_all add: max_cells_def)
  have b: "num_rings nan_to_int 19 = \<lfloor>1 / 2 + sqrt (real_of_int (12 * 19 - 3)) / 6\<rfloor>"
    by (rule num_rings_defined) (simp_all add: max_cells_def)
  have c: "hexagonal_grid_layout nan_to_int 7 x y
       = Inr ((real_of_int x / 2, real_of_int y / 2)
              # hex_ring (real_of_int x / 2) (real_of_int y / 2) 1
              @ hex_ring (real_of_int x / 2) (real_of_int y / 2) 2)"
    using hexagonal_grid_layout_eq[of nan_to_int 7 x y] by (simp add: num_rings_7 upto_1_2)
  have d: "hexagonal_grid_layout nan_to_int 19 x y
       = Inr ((real_of_int x / 2, real_of_int y / 2)
              # hex_ring (real_of_int x / 2) (real_of_int y / 2) 1
              @ hex_ring (real_of_int x / 2) (real_of_int y / 2) 2
              @ hex_ring (real_of_int x / 2) (real_of_int y / 2) 3)"
    using hexagonal_grid_layout_eq[of nan_to_int 19 x y] by (simp add: num_rings_19 upto_1_3)
  have e: "num_points (hexagonal_grid_layout nan_to_int 7 x y) = Inr (1 + 6 + 12)"
    using layout_7[of nan_to_int x y] by simp
  have f: "num_points (hexagonal_grid_layout nan_to_int 19 x y) = Inr (1 + 6 + 12 + 18)"
    using layout_19[of nan_to_int x y] by simp
  have g: "length (hex_ring (real_of_int x / 2) (real_of_int y / 2) 1) = 6"
    "length (hex_ring (real_of_int x / 2) (real_of_int y / 2) 2) = 12"
    "length (hex_ring (real_of_int x / 2) (real_of_int y / 2) 3) = 18"
    by (simp_all add: length_hex_ring)
  show ?thesis
    using a b c d e f g num_rings_7[of nan_to_int] num_rings_19[of nan_to_int] by blast
qed

text \<open>
  For \<open>num_cells = 7\<close> the ring count is \<open>\<lfloor>1 / 2 + 9 / 6\<rfloor> = 2\<close>, not 1, and the
  layout has 19 points, not 7.
\<close>

theorem hexagonal_grid_layout_7_counterexample:
  "num_rings 0 7 = 2 \<and> num_points (hexagonal_grid_layout 0 7 0 0) = Inr 19"
  by (simp add: num_rings_7 layout_7)

text \<open>
  Claim C7, as the code has it. The generator checks none of its arguments and has no
  rejecting path: for every \<open>num_cells\<close>, below 1 or not, it returns a sequence of points
  that begins with the centre. For \<open>num_cells < 1\<close> down to \<open>- max_cells\<close> the ring
  count is the integer that the conversion of NaN gives, and when that is below 1 the
  result is the centre alone. Further down \<^verbatim>\<open>12 * num_cells - 3\<close> wraps and can be
  positive: \<open>num_cells = - 2 ^ 62 + 7\<close> gives the 19 points of \<open>num_cells = 7\<close>.
\<close>

theorem hexagonal_grid_layout_never_rejects:
  "\<exists>points. hexagonal_grid_layout nan_to_int num_cells x y = Inr points
       \<and> hd points = (real_of_int x / 2, real_of_int y / 2)
       \<and> (- max_cells \<le> num_cells \<and> num_cells < 1
            \<longrightarrow> num_rings nan_to_int num_cells = nan_to_int)
       \<and> (- max_cells \<le> num_cells \<and> num_cells < 1 \<and> is_int64 nan_to_int \<and> nan_to_int < 1
            \<longrightarrow> points = [(real_of_int x / 2, real_of_int y / 2)])
       \<and> num_points (hexagonal_grid_layout nan_to_int (- 4611686018427387897) x y) = Inr 19"
proof -
  obtain rest where r: "hexagonal_grid_layout nan_to_int num_cells x y
                          = Inr ((real_of_int x / 2, real_of_int y / 2) # rest)"
    using hexagonal_grid_layout_returns by blast
  have n: "- max_cells \<le> num_cells \<and> num_cells < 1
             \<longrightarrow> num_rings nan_to_int num_cells = nan_to_int"
    using num_rings_nan by blast
  have "- max_cells \<le> num_cells \<and> num_cells < 1 \<and> is_int64 nan_to_int \<and> nan_to_int < 1
          \<longrightarrow> hexagonal_grid_layout nan_to_int num_cells x y
                = Inr [(real_of_int x / 2, real_of_int y / 2)]"
    using layout_no_ring[of nan_to_int num_cells x y] n by auto
  then show ?thesis
    using r n layout_wrapped_low[of nan_to_int x y] by auto
qed

theorem hexagonal_grid_layout_never_rejects_witness:
  "hexagonal_grid_layout (- (2 ^ 63)) (- 5) 8 2 = Inr [(4, 1)]"
  using hexagonal_grid_layout_never_rejects[of "- (2 ^ 63)" "- 5" 8 2]
  by (auto simp: max_cells_def is_int64_def)

text \<open>
  For \<open>num_cells = 0\<close> the call is not rejected: with the conversion of NaN that
  x86-64 gives, it returns the centre point alone. For \<open>num_cells = - 2 ^ 62 + 7\<close> it
  returns 19 points.
\<close>

theorem hexagonal_grid_layout_zero_cells_counterexample:
  "hexagonal_grid_layout (- (2 ^ 63)) 0 4 6 = Inr [(2, 3)]
   \<and> num_points (hexagonal_grid_layout (- (2 ^ 63)) (- 4611686018427387897) 4 6) = Inr 19"
proof -
  have "num_rings (- (2 ^ 63)) 0 = - (2 ^ 63)"
    by (rule num_rings_nan) (simp_all add: max_cells_def)
  then have "hexagonal_grid_layout (- (2 ^ 63)) 0 4 6 = Inr [(2, 3)]"
    using layout_no_ring[of "- (2 ^ 63)" 0 4 6] by (simp add: is_int64_def)
  then show ?thesis using layout_wrapped_low[of "- (2 ^ 63)" 4 6] by simp
qed

text \<open>
  Claim C8, as the code has it. For \<open>1 \<le> num_cells \<le> max_cells\<close>, the range in which
  \<^verbatim>\<open>12 * num_cells - 3\<close> does not wrap, the call returns a sequence of at least
  \<open>num_cells\<close> points: the centre \<open>(x / 2, y / 2)\<close> first, then ring 1, ring 2, and so on
  up to the ring count. Ring \<open>i\<close> has \<open>6 * i\<close> points, each at distance \<open>i\<close> from the
  centre, at angles that increase strictly along the ring and span less than one turn.
\<close>

theorem hexagonal_grid_layout_rings:
  assumes "1 \<le> num_cells" and "num_cells \<le> max_cells"
  shows "\<exists>points. hexagonal_grid_layout nan_to_int num_cells x y = Inr points
           \<and> num_cells \<le> int (length points)
           \<and> points = (real_of_int x / 2, real_of_int y / 2)
                # concat (map (hex_ring (real_of_int x / 2) (real_of_int y / 2))
                            [1..num_rings nan_to_int num_cells])
           \<and> (\<forall>i\<in>set [1..num_rings nan_to_int num_cells].
                 length (hex_ring (real_of_int x / 2) (real_of_int y / 2) i) = nat (6 * i)
               \<and> (\<forall>p\<in>set (hex_ring (real_of_int x / 2) (real_of_int y / 2) i).
                     linalg_norm (vsub p (real_of_int x / 2, real_of_int y / 2)) = real_of_int i)
               \<and> sorted_wrt (<) (map (ring_angle i) [0..6 * i - 1])
               \<and> ring_angle i (6 * i - 1) - ring_angle i 0 < 2 * pi)"
proof -
  define r where "r = num_rings nan_to_int num_cells"
  define cx where "cx = real_of_int x / 2"
  define cy where "cy = real_of_int y / 2"
  define points where "points = (cx, cy) # concat (map (hex_ring cx cy) [1..r])"
  have r1: "1 \<le> r" and nr: "num_cells < 1 + 3 * r * (r + 1)" and rs: "r < 2 ^ 32"
    using num_rings_bounds[OF assms, of nan_to_int] by (simp_all add: r_def)
  have r0: "0 \<le> r" using r1 by simp
  have e: "hexagonal_grid_layout nan_to_int num_cells x y = Inr points"
    using hexagonal_grid_layout_eq[OF r0[unfolded r_def] rs[unfolded r_def], of x y]
    by (simp add: points_def r_def cx_def cy_def)
  have "length points = 1 + nat (3 * r * (r + 1))"
    using r1 by (simp add: points_def length_rings)
  then have "int (length points) = 1 + 3 * r * (r + 1)"
    using r1 by simp
  then have l: "num_cells \<le> int (length points)" using nr by simp
  have rings: "length (hex_ring cx cy i) = nat (6 * i)
               \<and> (\<forall>p\<in>set (hex_ring cx cy i). linalg_norm (vsub p (cx, cy)) = real_of_int i)
               \<and> sorted_wrt (<) (map (ring_angle i) [0..6 * i - 1])
               \<and> ring_angle i (6 * i - 1) - ring_angle i 0 < 2 * pi"
    if "i \<in> set [1..r]" for i
  proof -
    from that have i: "0 < i" by simp
    have "linalg_norm (vsub p (cx, cy)) = real_of_int i" if "p \<in> set (hex_ring cx cy i)" for p
      using hex_ring_radius[OF that] i by simp
    then show ?thesis
      using length_hex_ring[of cx cy i] ring_angles_sorted[OF i] ring_angles_one_turn[OF i]
      by blast
  qed
  show ?thesis
    using e l rings unfolding points_def r_def cx_def cy_def by blast
qed

theorem hexagonal_grid_layout_rings_witness:
  "\<exists>points. hexagonal_grid_layout 0 1 4 6 = Inr points
       \<and> 1 \<le> int (length points)
       \<and> points = (2, 3) # hex_ring 2 3 1
       \<and> length points = 7"
proof -
  have h: "(1::int) \<le> 1" and h': "(1::int) \<le> max_cells" by (simp_all add: max_cells_def)
  from hexagonal_grid_layout_rings[OF h h', of 0 4 6] obtain points where
    p: "hexagonal_grid_layout 0 1 4 6 = Inr points"
    and l: "1 \<le> int (length points)"
    and s: "points = (real_of_int 4 / 2, real_of_int 6 / 2)
              # concat (map (hex_ring (real_of_int 4 / 2) (real_of_int 6 / 2)) [1..num_rings 0 1])"
    by blast
  have s': "points = (2, 3) # hex_ring 2 3 1"
    using s by (simp add: num_rings_1 upto_1_1)
  then have "length points = 7" by (simp add: length_hex_ring)
  then show ?thesis using p l s' by blast
qed

text \<open>
  Above \<open>max_cells\<close> the product wraps: \<open>num_cells = 2 ^ 62 + 7\<close> is a 64-bit integer, and
  the call returns the 19 points of \<open>num_cells = 7\<close>.
\<close>

theorem hexagonal_grid_layout_wrap_counterexample:
  "is_int64 4611686018427387911
   \<and> num_rings 0 4611686018427387911 = 2
   \<and> num_points (hexagonal_grid_layout 0 4611686018427387911 0 0) = Inr 19"
  using num_rings_wrapped_high[of 0] layout_wrapped_high[of 0 0 0]
  by (simp add: is_int64_def)

end
